theory Spec2Isabelle
  imports Main "HOL-Library.Sublist"
begin

section \<open>Strings and JavaScript values\<close>

text \<open>
  JavaScript strings are modelled as HOL strings (lists of 8-bit characters).  The
  empty string is the only falsy string; a missing property (\<open>undefined\<close>) is
  \<open>None\<close>.
\<close>

definition falsy :: "string option \<Rightarrow> bool" where
  "falsy v = (case v of None \<Rightarrow> True | Some s \<Rightarrow> s = [])"

text \<open>\<open>a || b\<close> on strings: the left operand unless it is empty.\<close>

definition or_else :: "string \<Rightarrow> string \<Rightarrow> string" where
  "or_else a b = (if a = [] then b else a)"

text \<open>Decimal rendering of a non-negative integer, as a template literal does.\<close>

definition digit_char :: "nat \<Rightarrow> char" where
  "digit_char d = ''0123456789'' ! d"

fun string_of_nat :: "nat \<Rightarrow> string" where
  "string_of_nat n =
     (if n < 10 then [digit_char n]
      else string_of_nat (n div 10) @ [digit_char (n mod 10)])"

declare string_of_nat.simps [simp del]

text \<open>
  An error object: \<open>name\<close> and \<open>message\<close>.  \<open>new Error(m)\<close> has the name
  \<open>Error\<close>; \<open>toString\<close> follows \<open>Error.prototype.toString\<close>.
\<close>

record js_error =
  name :: string
  message :: string

definition new_Error :: "string \<Rightarrow> js_error" where
  "new_Error m = \<lparr>name = ''Error'', message = m\<rparr>"

definition error_toString :: "js_error \<Rightarrow> string" where
  "error_toString e =
     (if name e = [] then message e
      else if message e = [] then name e
      else name e @ '': '' @ message e)"

section \<open>background.js\<close>

definition API_BASE_URL :: string where
  "API_BASE_URL = ''http://localhost:8000''"

text \<open>
  Everything the background script does to the outside world, in the order in which
  the code does it: a \<open>chrome.storage.local.set\<close> of the two keys, a call of the
  \<open>sendResponse\<close> callback, and the POST issued by \<open>fetch\<close> (url and the
  \<open>content\<close> field of the JSON body).
\<close>

datatype effect =
    StorageSet string string
  | SendResponse string string
  | FetchPost string string

type_synonym storage = "string \<rightharpoonup> string"

text \<open>\<open>updateSummaryState(status, content)\<close>: one write of both keys.\<close>

definition updateSummaryState :: "string \<Rightarrow> string \<Rightarrow> effect list" where
  "updateSummaryState status content = [StorageSet status content]"

definition storage_set :: "string \<Rightarrow> string \<Rightarrow> storage \<Rightarrow> storage" where
  "storage_set status content st =
     st(''summaryStatus'' \<mapsto> status, ''emailSummary'' \<mapsto> content)"

fun apply_effects :: "effect list \<Rightarrow> storage \<Rightarrow> storage" where
  "apply_effects [] st = st"
| "apply_effects (StorageSet s c # es) st = apply_effects es (storage_set s c st)"
| "apply_effects (SendResponse s m # es) st = apply_effects es st"
| "apply_effects (FetchPost u c # es) st = apply_effects es st"

fun status_writes :: "effect list \<Rightarrow> string list" where
  "status_writes [] = []"
| "status_writes (StorageSet s c # es) = s # status_writes es"
| "status_writes (SendResponse s m # es) = status_writes es"
| "status_writes (FetchPost u c # es) = status_writes es"

fun responses_of :: "effect list \<Rightarrow> (string \<times> string) list" where
  "responses_of [] = []"
| "responses_of (StorageSet s c # es) = responses_of es"
| "responses_of (SendResponse s m # es) = (s, m) # responses_of es"
| "responses_of (FetchPost u c # es) = responses_of es"

fun fetches_of :: "effect list \<Rightarrow> (string \<times> string) list" where
  "fetches_of [] = []"
| "fetches_of (StorageSet s c # es) = fetches_of es"
| "fetches_of (SendResponse s m # es) = fetches_of es"
| "fetches_of (FetchPost u c # es) = (u, c) # fetches_of es"

record request =
  action :: string
  content :: "string option"

text \<open>
  The \<open>onMessage\<close> listener up to its \<open>return\<close>: the effects performed
  synchronously and the value returned (\<open>None\<close> for \<open>undefined\<close>).
\<close>

definition onMessage :: "request \<Rightarrow> effect list \<times> bool option" where
  "onMessage req =
     (if action req = ''summarizeEmail'' then
        (if falsy (content req) then
           (updateSummaryState ''error'' ''Error: No content provided by content script.''
              @ [SendResponse ''error'' ''No content provided''],
            Some True)
         else
           (updateSummaryState ''loading'' ''Sending content to backend...''
              @ [SendResponse ''processing'' ''Summarization request sent to backend.'']
              @ [FetchPost (API_BASE_URL @ ''/email/summarize-content'') (the (content req))],
            Some True))
      else ([], None))"

text \<open>
  What \<open>fetch\<close> delivers: the promise rejects, or it resolves with a response whose
  \<open>status\<close> is known and whose \<open>text()\<close> promise resolves with the body or
  rejects.
\<close>

record response =
  status :: nat
  text_result :: "js_error + string"

datatype fetch_outcome = Rejected js_error | Resolved response

definition ok :: "response \<Rightarrow> bool" where
  "ok r = (200 \<le> status r \<and> status r \<le> 299)"

text \<open>First \<open>.then\<close>: a non-ok response is turned into a thrown \<open>Error\<close>.\<close>

definition on_response :: "response \<Rightarrow> js_error + string" where
  "on_response r =
     (if \<not> ok r then
        (case text_result r of
           Inl e \<Rightarrow> Inl e
         | Inr t \<Rightarrow>
             Inl (new_Error (''Backend responded with '' @ string_of_nat (status r)
                             @ ''. Details: '' @ t)))
      else text_result r)"

text \<open>Second \<open>.then\<close>.\<close>

definition on_summary :: "string \<Rightarrow> effect list" where
  "on_summary summaryText =
     updateSummaryState ''success'' (or_else summaryText ''Backend returned empty summary.'')"

text \<open>The \<open>.catch\<close> handler; \<open>error?.message || error\<close> inside a template literal.\<close>

definition on_error :: "js_error \<Rightarrow> effect list" where
  "on_error e =
     (let errorMsg = ''Error during backend call: '' @ or_else (message e) (error_toString e)
      in updateSummaryState ''error'' (''Summarization Failed: '' @ errorMsg))"

text \<open>The whole promise chain, run when the fetch settles.\<close>

definition fetch_settled :: "fetch_outcome \<Rightarrow> effect list" where
  "fetch_settled out =
     (case out of
        Rejected e \<Rightarrow> on_error e
      | Resolved r \<Rightarrow>
          (case on_response r of
             Inl e \<Rightarrow> on_error e
           | Inr summaryText \<Rightarrow> on_summary summaryText))"

text \<open>
  One request from arrival to the end: the synchronous effects, then, if a fetch was
  issued and has settled (\<open>Some out\<close>), the effects of the promise chain.  \<open>None\<close>
  is a fetch that has not settled (there is no timeout).
\<close>

definition summarize_run :: "request \<Rightarrow> fetch_outcome option \<Rightarrow> effect list" where
  "summarize_run req settled =
     (let now_effects = fst (onMessage req) in
      now_effects @
      (if fetches_of now_effects = [] then []
       else (case settled of None \<Rightarrow> [] | Some out \<Rightarrow> fetch_settled out)))"

text \<open>
  The property of a sequence of status writes that the specification asks for: each
  \<open>success\<close> or \<open>error\<close> write comes right after a \<open>loading\<close> write.
\<close>

fun preceded_by_loading :: "string list \<Rightarrow> bool" where
  "preceded_by_loading [] = True"
| "preceded_by_loading [s] = (s = ''loading'')"
| "preceded_by_loading (s # t # rest) =
     (s = ''loading'' \<and>
      (if t = ''success'' \<or> t = ''error'' then preceded_by_loading rest
       else preceded_by_loading (t # rest)))"


section \<open>The host document\<close>

text \<open>
  A DOM node is an element or a text node.  An element carries what the scripts
  read or write: tag name, \<open>id\<close>, class list, attributes, inline style, the rendered
  \<open>innerText\<close> (computed by the browser from layout, so it is a datum of the
  snapshot) and its child nodes.  The document is given by the child nodes of
  \<open>document.body\<close>, in document order.
\<close>

datatype node =
    Element (tagName: string) (elemId: string) (classList: "string list")
      (attributes: "(string \<times> string) list") (style: "(string \<times> string) list")
      (innerText: string) (childNodes: "node list")
  | Text (data: string)

fun textContent :: "node \<Rightarrow> string" where
  "textContent (Text d) = d"
| "textContent (Element tg i cl at sty it kids) = concat (map textContent kids)"

definition title_attr :: "node \<Rightarrow> string" where
  "title_attr e = (case map_of (attributes e) ''title'' of None \<Rightarrow> [] | Some v \<Rightarrow> v)"

definition style_display :: "node \<Rightarrow> string" where
  "style_display e = (case map_of (style e) ''display'' of None \<Rightarrow> [] | Some v \<Rightarrow> v)"

subsection \<open>Selectors\<close>

text \<open>
  The scripts use only type selectors, class selectors, \<open>:nth-of-type\<close> and the
  descendant combinator.  A compound selector is a record of these three parts; a
  complex selector is the list of its compounds, outermost first.
\<close>

record compound =
  sel_tag :: "string option"
  sel_classes :: "string list"
  sel_nth_of_type :: "nat option"

type_synonym selector = "compound list"

text \<open>\<open>k\<close> is the position of the element among its siblings of the same type.\<close>

fun matches_compound :: "compound \<Rightarrow> node \<Rightarrow> nat \<Rightarrow> bool" where
  "matches_compound c (Text d) k = False"
| "matches_compound c (Element tg i cl at sty it kids) k =
     ((case sel_tag c of None \<Rightarrow> True | Some t \<Rightarrow> t = tg)
      \<and> list_all (\<lambda>x. x \<in> set cl) (sel_classes c)
      \<and> (case sel_nth_of_type c of None \<Rightarrow> True | Some n \<Rightarrow> n = k))"

text \<open>
  The remaining compounds, innermost first, against the ancestors, nearest first.
  Taking the nearest ancestor that matches loses nothing: every ancestor of a farther
  match is an ancestor of the nearer one too.
\<close>

fun matches_ancestors :: "compound list \<Rightarrow> (node \<times> nat) list \<Rightarrow> bool" where
  "matches_ancestors [] anc = True"
| "matches_ancestors (c # cs) [] = False"
| "matches_ancestors (c # cs) ((a, k) # anc) =
     (if matches_compound c a k then matches_ancestors cs anc
      else matches_ancestors (c # cs) anc)"

definition matches :: "selector \<Rightarrow> (node \<times> nat) list \<Rightarrow> node \<Rightarrow> nat \<Rightarrow> bool" where
  "matches sel anc e k =
     (case rev sel of
        [] \<Rightarrow> False
      | c # cs \<Rightarrow> matches_compound c e k \<and> matches_ancestors cs anc)"

fun has_tag :: "string \<Rightarrow> node \<Rightarrow> bool" where
  "has_tag t (Text d) = False"
| "has_tag t (Element tg i cl at sty it kids) = (t = tg)"

fun nth_of_type :: "node list \<Rightarrow> node \<Rightarrow> nat" where
  "nth_of_type prev (Text d) = 0"
| "nth_of_type prev (Element tg i cl at sty it kids) = Suc (length (filter (has_tag tg) prev))"

text \<open>
  \<open>querySelector\<close>: the first match in document order (an element comes before its
  descendants, these before its later siblings).  The search runs over a list of
  siblings, \<open>prev\<close> being the siblings already passed and \<open>anc\<close> the ancestors;
  the result is the path to the match (child indices from the top) and the match.
\<close>

fun query_node :: "selector \<Rightarrow> (node \<times> nat) list \<Rightarrow> node list \<Rightarrow> node \<Rightarrow> (nat list \<times> node) option"
and query_nodes :: "selector \<Rightarrow> (node \<times> nat) list \<Rightarrow> node list \<Rightarrow> node list \<Rightarrow> (nat list \<times> node) option"
where
  "query_node sel anc prev (Text d) = None"
| "query_node sel anc prev (Element tg i cl at sty it kids) =
     (let e = Element tg i cl at sty it kids; k = nth_of_type prev e in
      if matches sel anc e k then Some ([], e)
      else query_nodes sel ((e, k) # anc) [] kids)"
| "query_nodes sel anc prev [] = None"
| "query_nodes sel anc prev (n # rest) =
     (case query_node sel anc prev n of
        Some (p, e) \<Rightarrow> Some (length prev # p, e)
      | None \<Rightarrow> query_nodes sel anc (prev @ [n]) rest)"

definition querySelectorPath :: "selector \<Rightarrow> node list \<Rightarrow> (nat list \<times> node) option" where
  "querySelectorPath sel doc = query_nodes sel [] [] doc"

definition querySelector :: "selector \<Rightarrow> node list \<Rightarrow> node option" where
  "querySelector sel doc = map_option snd (querySelectorPath sel doc)"

text \<open>\<open>getElementById\<close>: the first element in document order with that id.\<close>

fun find_id :: "string \<Rightarrow> node \<Rightarrow> node option"
and find_id_list :: "string \<Rightarrow> node list \<Rightarrow> node option"
where
  "find_id x (Text d) = None"
| "find_id x (Element tg i cl at sty it kids) =
     (if i = x then Some (Element tg i cl at sty it kids) else find_id_list x kids)"
| "find_id_list x [] = None"
| "find_id_list x (n # rest) =
     (case find_id x n of Some e \<Rightarrow> Some e | None \<Rightarrow> find_id_list x rest)"

definition getElementById :: "string \<Rightarrow> node list \<Rightarrow> node option" where
  "getElementById x doc = find_id_list x doc"

text \<open>How many elements of the document carry a given id.\<close>

fun count_id :: "string \<Rightarrow> node \<Rightarrow> nat"
and count_id_list :: "string \<Rightarrow> node list \<Rightarrow> nat"
where
  "count_id x (Text d) = 0"
| "count_id x (Element tg i cl at sty it kids) =
     (if i = x then 1 else 0) + count_id_list x kids"
| "count_id_list x [] = 0"
| "count_id_list x (n # rest) = count_id x n + count_id_list x rest"

text \<open>
  \<open>ref.parentNode.insertBefore(new, ref)\<close>, the reference node given by its path:
  \<open>new\<close> becomes a child of the parent, right before the reference node.
\<close>

fun insertBefore :: "nat list \<Rightarrow> node \<Rightarrow> node list \<Rightarrow> node list"
and insertBefore_in :: "nat list \<Rightarrow> node \<Rightarrow> node \<Rightarrow> node"
where
  "insertBefore [] new ns = ns"
| "insertBefore (i # p) new [] = []"
| "insertBefore (i # p) new (n # rest) =
     (case i of
        0 \<Rightarrow> (if p = [] then new # n # rest else insertBefore_in p new n # rest)
      | Suc j \<Rightarrow> n # insertBefore (j # p) new rest)"
| "insertBefore_in p new (Text d) = Text d"
| "insertBefore_in p new (Element tg i cl at sty it kids) =
     Element tg i cl at sty it (insertBefore p new kids)"

text \<open>\<open>String.prototype.trim\<close> on 8-bit characters: tab, line feed, vertical tab, form
  feed, carriage return, space and no-break space are white space.\<close>

definition is_space :: "char \<Rightarrow> bool" where
  "is_space c = (of_char c \<in> {9, 10, 11, 12, 13, 32, 160 :: nat})"

definition trim :: "string \<Rightarrow> string" where
  "trim s = rev (dropWhile is_space (rev (dropWhile is_space s)))"


section \<open>content.js\<close>

definition MAIN_TOOLBAR_SELECTOR :: selector where
  "MAIN_TOOLBAR_SELECTOR =
     [\<lparr>sel_tag = Some ''div'', sel_classes = [''aeH''], sel_nth_of_type = None\<rparr>,
      \<lparr>sel_tag = Some ''div'', sel_classes = [''G-atb''], sel_nth_of_type = None\<rparr>]"

definition TOOLBAR_INSERTION_POINT_SELECTOR :: selector where
  "TOOLBAR_INSERTION_POINT_SELECTOR =
     [\<lparr>sel_tag = Some ''div'', sel_classes = [''aeH''], sel_nth_of_type = None\<rparr>,
      \<lparr>sel_tag = Some ''div'', sel_classes = [''G-atb''], sel_nth_of_type = None\<rparr>,
      \<lparr>sel_tag = Some ''div'', sel_classes = [''G-Ni''], sel_nth_of_type = Some 3\<rparr>]"

definition EMAIL_BODY_SELECTOR :: selector where
  "EMAIL_BODY_SELECTOR =
     [\<lparr>sel_tag = Some ''div'', sel_classes = [''a3s'', ''aiL''], sel_nth_of_type = None\<rparr>]"

definition BUTTON_ID :: string where
  "BUTTON_ID = ''automail-summarize-btn''"

text \<open>
  The two elements \<open>addSummarizeButton\<close> creates.  The click listener of the button
  is not a part of the node; no property below depends on it.
\<close>

definition summarizeBtn :: node where
  "summarizeBtn =
     Element ''div'' BUTTON_ID [''T-I'', ''J-J5-Ji'', ''L3'']
       [(''role'', ''button''), (''tabindex'', ''0''),
        (''aria-label'', ''Summarize Email''), (''data-tooltip'', ''Summarize Email'')]
       [(''user-select'', ''none''), (''padding'', ''0 8px''), (''height'', ''28px''),
        (''line-height'', ''28px''), (''margin-left'', ''8px'')]
       ''Summarize'' [Text ''Summarize'']"

definition summarizeBtnWrapper :: node where
  "summarizeBtnWrapper =
     Element ''div'' [] [''G-Ni'', ''J-J5-Ji''] [] [] ''Summarize'' [summarizeBtn]"

text \<open>
  The timers of the page.  \<open>setTimeout\<close> is called with two functions only:
  \<open>addSummarizeButton\<close> itself (the retry) and the closure \<open>later\<close> of the debounced
  wrapper.
\<close>

datatype timer_callback = Retry | Later

record timer =
  timer_id :: nat
  due :: nat
  cb :: timer_callback

text \<open>
  The state of the content script: the document, the global
  \<open>window.addSummarizeButtonRetried\<close>, the clock in milliseconds, the pending timers
  in the order in which they were set, the next timer id, and the variable
  \<open>timeout\<close> of the closure made by \<open>debounceAddSummarizeButton\<close>.  \<open>later_runs\<close>
  records the times at which \<open>later\<close> has called the wrapped function.
\<close>

record content_state =
  doc :: "node list"
  addSummarizeButtonRetried :: bool
  now :: nat
  timers :: "timer list"
  next_timer_id :: nat
  timeout :: "nat option"
  later_runs :: "nat list"

definition setTimeout :: "timer_callback \<Rightarrow> nat \<Rightarrow> content_state \<Rightarrow> nat \<times> content_state" where
  "setTimeout f wait st =
     (next_timer_id st,
      st\<lparr>timers := timers st @ [\<lparr>timer_id = next_timer_id st, due = now st + wait, cb = f\<rparr>],
         next_timer_id := Suc (next_timer_id st)\<rparr>)"

definition clearTimeout :: "nat option \<Rightarrow> content_state \<Rightarrow> content_state" where
  "clearTimeout h st =
     (case h of
        None \<Rightarrow> st
      | Some i \<Rightarrow> st\<lparr>timers := filter (\<lambda>tm. timer_id tm \<noteq> i) (timers st)\<rparr>)"

definition addSummarizeButton :: "content_state \<Rightarrow> content_state" where
  "addSummarizeButton st =
     (if getElementById BUTTON_ID (doc st) \<noteq> None then st
      else
        (case querySelectorPath TOOLBAR_INSERTION_POINT_SELECTOR (doc st) of
           None \<Rightarrow>
             (if \<not> addSummarizeButtonRetried st then
                snd (setTimeout Retry 500 (st\<lparr>addSummarizeButtonRetried := True\<rparr>))
              else st\<lparr>addSummarizeButtonRetried := False\<rparr>)
         | Some (p, insertionPoint) \<Rightarrow>
             st\<lparr>addSummarizeButtonRetried := False,
                doc := insertBefore p summarizeBtnWrapper (doc st)\<rparr>))"

text \<open>
  \<open>debouncedAddSummarizeButton = debounceAddSummarizeButton(addSummarizeButton, 500)\<close>:
  \<open>executedFunction\<close> is a call of the wrapper.
\<close>

definition executedFunction :: "content_state \<Rightarrow> content_state" where
  "executedFunction st =
     (let st1 = clearTimeout (timeout st) st;
          (h, st2) = setTimeout Later 500 st1
      in st2\<lparr>timeout := Some h\<rparr>)"

text \<open>
  The callback of the \<open>MutationObserver\<close>, given the types of the mutation records of
  one notification.  The loop stops at the first record for which the wrapper is called.
\<close>

fun callback :: "string list \<Rightarrow> content_state \<Rightarrow> content_state" where
  "callback [] st = st"
| "callback (mutation_type # mutationsList) st =
     (if mutation_type = ''childList'' \<or> mutation_type = ''subtree'' then
        (let targetToolbar = querySelector MAIN_TOOLBAR_SELECTOR (doc st);
             emailBody = querySelector EMAIL_BODY_SELECTOR (doc st)
         in if targetToolbar \<noteq> None \<and> emailBody \<noteq> None then executedFunction st
            else callback mutationsList st)
      else callback mutationsList st)"

text \<open>
  The observer is registered on \<open>document.body\<close> for \<open>childList\<close> and
  \<open>subtree\<close> before the script's first attempt, and never disconnected.  So it also
  sees what \<open>addSummarizeButton\<close> itself does to the document: the insertion of the
  wrapper into the toolbar is one \<open>childList\<close> record (the button is put into the
  wrapper before the wrapper is in the document).  The records reach the callback when
  the running task has ended; \<open>addSummarizeButton\<close> is the last thing each of the
  script's tasks does.  \<open>addSummarizeButton_observed\<close> is a call of
  \<open>addSummarizeButton\<close> by the script, followed by that delivery.
\<close>

definition own_records :: "node list \<Rightarrow> node list \<Rightarrow> string list" where
  "own_records old_doc new_doc = (if new_doc = old_doc then [] else [''childList''])"

definition addSummarizeButton_observed :: "content_state \<Rightarrow> content_state" where
  "addSummarizeButton_observed st =
     (let st1 = addSummarizeButton st in callback (own_records (doc st) (doc st1)) st1)"

text \<open>
  \<open>later\<close> is the function the wrapper hands to \<open>setTimeout\<close>:
  \<open>clearTimeout(timeout); func(...args)\<close>, with \<open>func\<close> the observed
  \<open>addSummarizeButton\<close>.
\<close>

definition later :: "content_state \<Rightarrow> content_state" where
  "later st =
     (let st1 = clearTimeout (timeout st) st in
      addSummarizeButton_observed (st1\<lparr>later_runs := later_runs st1 @ [now st1]\<rparr>))"

text \<open>
  The state when the script starts, and the script's own first attempt, made right
  after \<open>observer.observe\<close>.
\<close>

definition initial_state :: "node list \<Rightarrow> nat \<Rightarrow> content_state" where
  "initial_state d t =
     \<lparr>doc = d, addSummarizeButtonRetried = False, now = t, timers = [],
      next_timer_id = 1, timeout = None, later_runs = []\<rparr>"

definition script_start :: "node list \<Rightarrow> nat \<Rightarrow> content_state" where
  "script_start d t = addSummarizeButton_observed (initial_state d t)"

subsection \<open>The event loop\<close>

text \<open>
  The pending timer that fires next: the one with the least due time, the one set
  first among equals.
\<close>

fun earliest :: "timer list \<Rightarrow> timer option" where
  "earliest [] = None"
| "earliest (tm # tms) =
     (case earliest tms of
        None \<Rightarrow> Some tm
      | Some u \<Rightarrow> if due tm \<le> due u then Some tm else Some u)"

text \<open>A timer fires: it leaves the queue, the clock reaches its due time, its function runs.\<close>

definition fire :: "timer \<Rightarrow> content_state \<Rightarrow> content_state" where
  "fire tm st =
     (let st1 = st\<lparr>timers := remove1 tm (timers st), now := max (now st) (due tm)\<rparr> in
      case cb tm of
        Retry \<Rightarrow> addSummarizeButton_observed st1
      | Later \<Rightarrow> later st1)"

text \<open>
  Whether a notification gets through to the debounced wrapper: some record is of type
  \<open>childList\<close> (or \<open>subtree\<close>) and both the main toolbar and the email body are
  in the document.
\<close>

definition gate_open :: "node list \<Rightarrow> string list \<Rightarrow> bool" where
  "gate_open d recs =
     (list_ex (\<lambda>m. m = ''childList'' \<or> m = ''subtree'') recs
      \<and> querySelector MAIN_TOOLBAR_SELECTOR d \<noteq> None
      \<and> querySelector EMAIL_BODY_SELECTOR d \<noteq> None)"

lemma callback_gate:
  "callback recs st = (if gate_open (doc st) recs then executedFunction st else st)"
  by (induction recs) (auto simp: gate_open_def Let_def)

text \<open>
  Running the timers that are due needs a termination argument, because a timer's
  function may set a new timer: the measure is the total time by which the pending
  timers are overdue at \<open>t\<close>.  A task sets at most one timer (a retry when the anchor
  is missing, or the wrapper's timer when its own insertion is observed), due 500 ms
  after the timer that started the task.
\<close>

lemma addSummarizeButton_timers:
  "timers (addSummarizeButton st) = timers st
   \<or> timers (addSummarizeButton st)
       = timers st @ [\<lparr>timer_id = next_timer_id st, due = now st + 500, cb = Retry\<rparr>]"
  by (simp add: addSummarizeButton_def setTimeout_def split: option.splits prod.splits)

lemma addSummarizeButton_inserts:
  "doc (addSummarizeButton st) \<noteq> doc st \<Longrightarrow>
     timers (addSummarizeButton st) = timers st \<and> now (addSummarizeButton st) = now st"
  by (auto simp: addSummarizeButton_def setTimeout_def split: option.splits prod.splits if_splits)

lemma addSummarizeButton_now [simp]: "now (addSummarizeButton st) = now st"
  by (simp add: addSummarizeButton_def setTimeout_def split: option.splits prod.splits)

lemma earliest_mem: "earliest tms = Some tm \<Longrightarrow> tm \<in> set tms"
  by (induction tms arbitrary: tm) (auto split: option.splits if_splits)

text \<open>The measure: by how much the pending timers are overdue at \<open>t\<close>, in total.\<close>

definition backlog :: "nat \<Rightarrow> timer list \<Rightarrow> nat" where
  "backlog t tms = sum_list (map (\<lambda>tm. Suc t - due tm) tms)"

lemma backlog_remove1:
  "tm \<in> set tms \<Longrightarrow> backlog t tms = (Suc t - due tm) + backlog t (remove1 tm tms)"
  unfolding backlog_def by (induction tms) auto

lemma backlog_filter: "backlog t (filter P tms) \<le> backlog t tms"
  unfolding backlog_def by (induction tms) auto

lemma backlog_append: "backlog t (xs @ ys) = backlog t xs + backlog t ys"
  unfolding backlog_def by simp

lemma backlog_addSummarizeButton:
  "backlog t (timers (addSummarizeButton st)) \<le> backlog t (timers st) + (Suc t - (now st + 500))"
  using addSummarizeButton_timers [of st]
  by (auto simp: backlog_append) (simp add: backlog_def)

lemma clearTimeout_fields:
  "now (clearTimeout h st) = now st"
  by (simp add: clearTimeout_def split: option.splits)

lemma backlog_clearTimeout: "backlog t (timers (clearTimeout h st)) \<le> backlog t (timers st)"
  by (simp add: clearTimeout_def backlog_filter split: option.splits)

lemma backlog_executedFunction:
  "backlog t (timers (executedFunction st)) \<le> backlog t (timers st) + (Suc t - (now st + 500))"
proof -
  let ?st1 = "clearTimeout (timeout st) st"
  have "timers (executedFunction st)
          = timers ?st1 @ [\<lparr>timer_id = next_timer_id ?st1, due = now ?st1 + 500, cb = Later\<rparr>]"
    by (simp add: executedFunction_def setTimeout_def Let_def)
  then show ?thesis
    using backlog_clearTimeout [of t "timeout st" st]
    by (simp add: backlog_append clearTimeout_fields) (simp add: backlog_def)
qed

lemma backlog_observed:
  "backlog t (timers (addSummarizeButton_observed st))
     \<le> backlog t (timers st) + (Suc t - (now st + 500))"
proof (cases "doc (addSummarizeButton st) = doc st")
  case True
  then have "addSummarizeButton_observed st = addSummarizeButton st"
    by (simp add: addSummarizeButton_observed_def own_records_def)
  then show ?thesis
    using backlog_addSummarizeButton [of t st] by simp
next
  case False
  let ?st1 = "addSummarizeButton st"
  have same: "timers ?st1 = timers st" "now ?st1 = now st"
    using addSummarizeButton_inserts [OF False] by simp_all
  show ?thesis
  proof (cases "gate_open (doc ?st1) [''childList'']")
    case True
    then have "addSummarizeButton_observed st = executedFunction ?st1"
      using False by (simp add: addSummarizeButton_observed_def own_records_def callback_gate)
    then show ?thesis
      using backlog_executedFunction [of t ?st1] same by simp
  next
    case nogate: False
    then have "addSummarizeButton_observed st = ?st1"
      using False by (simp add: addSummarizeButton_observed_def own_records_def callback_gate)
    then show ?thesis
      using same by simp
  qed
qed

lemma backlog_fire:
  assumes "tm \<in> set (timers st)" and "due tm \<le> t"
  shows "backlog t (timers (fire tm st)) < backlog t (timers st)"
proof -
  let ?st1 = "st\<lparr>timers := remove1 tm (timers st), now := max (now st) (due tm)\<rparr>"
  have b1: "backlog t (timers st) = (Suc t - due tm) + backlog t (timers ?st1)"
    using assms(1) by (simp add: backlog_remove1)
  have small: "Suc t - (now ?st1 + 500) < Suc t - due tm"
    using assms(2) by simp
  show ?thesis
  proof (cases "cb tm")
    case Retry
    then have "fire tm st = addSummarizeButton_observed ?st1"
      by (simp add: fire_def)
    then show ?thesis
      using backlog_observed [of t ?st1] b1 small by simp
  next
    case Later
    let ?st2 = "clearTimeout (timeout ?st1) ?st1"
    let ?st3 = "?st2\<lparr>later_runs := later_runs ?st2 @ [now ?st2]\<rparr>"
    have f: "fire tm st = addSummarizeButton_observed ?st3"
      using Later by (simp add: fire_def later_def Let_def)
    have "backlog t (timers ?st3) \<le> backlog t (timers ?st1)"
      using backlog_clearTimeout [of t "timeout ?st1" ?st1] by simp
    moreover have "now ?st3 = now ?st1"
      by (simp add: clearTimeout_fields)
    ultimately show ?thesis
      using backlog_observed [of t ?st3] b1 small f by simp
  qed
qed

text \<open>
  \<open>run_due t\<close> fires, in order, every timer that is due at time \<open>t\<close> or before,
  including those set on the way.
\<close>

function run_due :: "nat \<Rightarrow> content_state \<Rightarrow> content_state" where
  "run_due t st =
     (case earliest (timers st) of
        None \<Rightarrow> st
      | Some tm \<Rightarrow> if due tm \<le> t then run_due t (fire tm st) else st)"
  by pat_completeness auto
termination
  by (relation "measure (\<lambda>(t, st). backlog t (timers st))")
     (auto simp: backlog_fire earliest_mem)

declare run_due.simps [simp del]

text \<open>Time passes until \<open>t\<close>: the due timers fire, then the clock shows \<open>t\<close>.\<close>

definition advance :: "nat \<Rightarrow> content_state \<Rightarrow> content_state" where
  "advance t st = (let st1 = run_due t st in st1\<lparr>now := max (now st1) t\<rparr>)"


text \<open>
  A mutation signal from outside \<open>addSummarizeButton\<close>: at time \<open>t\<close> the document
  has been changed to \<open>d\<close> (by the host page, or by anything else on the page), and
  the observer delivers one notification with the record types \<open>recs\<close>.
\<close>

definition observe :: "nat \<times> node list \<times> string list \<Rightarrow> content_state \<Rightarrow> content_state" where
  "observe sig st =
     (case sig of (t, d, recs) \<Rightarrow> callback recs ((advance t st)\<lparr>doc := d\<rparr>))"

fun observe_all :: "(nat \<times> node list \<times> string list) list \<Rightarrow> content_state \<Rightarrow> content_state" where
  "observe_all [] st = st"
| "observe_all (sig # sigs) st = observe_all sigs (observe sig st)"

text \<open>
  A burst: signals in time order, none before \<open>t\<close>, each less than 500 ms after the
  one before it (after \<open>t\<close> for the first), each getting through the gate.
  \<open>last_time\<close> is the time of the last one, \<open>last_doc\<close> the document it left.
\<close>

fun burst :: "nat \<Rightarrow> (nat \<times> node list \<times> string list) list \<Rightarrow> bool" where
  "burst t [] = True"
| "burst t ((u, d, recs) # sigs) = (t \<le> u \<and> u < t + 500 \<and> gate_open d recs \<and> burst u sigs)"

fun last_time :: "nat \<Rightarrow> (nat \<times> node list \<times> string list) list \<Rightarrow> nat" where
  "last_time t [] = t"
| "last_time t ((u, d, recs) # sigs) = last_time u sigs"

fun last_doc :: "node list \<Rightarrow> (nat \<times> node list \<times> string list) list \<Rightarrow> node list" where
  "last_doc d0 [] = d0"
| "last_doc d0 ((u, d, recs) # sigs) = last_doc d sigs"

text \<open>The document after a call of \<open>addSummarizeButton\<close> on the document \<open>d\<close>.\<close>

definition reconciled :: "node list \<Rightarrow> node list" where
  "reconciled d = doc (addSummarizeButton (initial_state d 0))"

section \<open>The floating widget\<close>

text \<open>
  Reading a property of \<open>null\<close> throws a \<open>TypeError\<close>; the result of a read is
  the error or the value.
\<close>

definition member :: "node option \<Rightarrow> (node \<Rightarrow> 'a) \<Rightarrow> js_error + 'a" where
  "member obj f =
     (case obj of
        None \<Rightarrow> Inl \<lparr>name = ''TypeError'', message = ''Cannot read properties of null''\<rparr>
      | Some e \<Rightarrow> Inr (f e))"

definition and_then :: "js_error + 'a \<Rightarrow> ('a \<Rightarrow> js_error + 'b) \<Rightarrow> js_error + 'b" where
  "and_then r f = (case r of Inl e \<Rightarrow> Inl e | Inr v \<Rightarrow> f v)"

record snapshot =
  page :: string
  sender :: string
  date :: string
  subject :: string
  body :: string

definition sel_gD :: selector where
  "sel_gD = [\<lparr>sel_tag = None, sel_classes = [''gD''], sel_nth_of_type = None\<rparr>]"

definition sel_span_g3 :: selector where
  "sel_span_g3 = [\<lparr>sel_tag = Some ''span'', sel_classes = [''g3''], sel_nth_of_type = None\<rparr>]"

definition sel_h2_hP :: selector where
  "sel_h2_hP = [\<lparr>sel_tag = Some ''h2'', sel_classes = [''hP''], sel_nth_of_type = None\<rparr>]"

definition sel_a3s :: selector where
  "sel_a3s = [\<lparr>sel_tag = None, sel_classes = [''a3s''], sel_nth_of_type = None\<rparr>]"

text \<open>
  \<open>getGmailInfo\<close>, given \<open>window.location.hash\<close> and the document.  Each field is
  \<open>el ? ... : ''\<close>; the property reads in the first branch are those of \<open>member\<close>.
\<close>

definition getGmailInfo :: "string \<Rightarrow> node list \<Rightarrow> js_error + snapshot" where
  "getGmailInfo hash d =
     (let pg = (if CHR ''/'' \<in> set hash then ''singleEmail'' else ''list'') in
      if pg = ''singleEmail'' then
        (let sEl = querySelector sel_gD d;
             dEl = querySelector sel_span_g3 d;
             tEl = querySelector sel_h2_hP d;
             bEl = querySelector sel_a3s d
         in
         and_then (if sEl \<noteq> None then and_then (member sEl textContent) (\<lambda>t. Inr (trim t))
                   else Inr []) (\<lambda>sender_v.
         and_then (if dEl \<noteq> None then
                     and_then (member dEl title_attr) (\<lambda>ti.
                     and_then (member dEl textContent) (\<lambda>tc. Inr (trim (or_else ti tc))))
                   else Inr []) (\<lambda>date_v.
         and_then (if tEl \<noteq> None then and_then (member tEl textContent) (\<lambda>t. Inr (trim t))
                   else Inr []) (\<lambda>subject_v.
         and_then (if bEl \<noteq> None then
                     and_then (member bEl innerText) (\<lambda>it.
                     and_then (member bEl textContent) (\<lambda>tc.
                       Inr (trim (or_else it (or_else tc [])))))
                   else Inr []) (\<lambda>body_v.
         Inr \<lparr>page = pg, sender = sender_v, date = date_v, subject = subject_v,
              body = body_v\<rparr>)))))
      else Inr \<lparr>page = pg, sender = [], date = [], subject = [], body = []\<rparr>)"

text \<open>
  The state of the injected script: the document, the location hash, the flag
  \<open>window.__gmailFloatingInjected\<close>, the variable \<open>lastInfo\<close> of the closure, and
  the \<open>gmailInfo\<close> messages posted to the iframe so far.
\<close>

record floating_state =
  fdoc :: "node list"
  location_hash :: string
  gmailFloatingInjected :: bool
  lastInfo :: "snapshot option"
  posted :: "snapshot list"

definition floating_button :: node where
  "floating_button = Element ''div'' ''gmail-floating-button'' [] [] [] [] []"

text \<open>The body of the immediately invoked function, up to the insertion of the button.\<close>

definition floating_inject :: "floating_state \<Rightarrow> floating_state" where
  "floating_inject st =
     (if gmailFloatingInjected st then st
      else st\<lparr>gmailFloatingInjected := True, fdoc := fdoc st @ [floating_button]\<rparr>)"

definition infoChanged :: "snapshot option \<Rightarrow> snapshot \<Rightarrow> bool" where
  "infoChanged lastInfo_v newInfo =
     (case lastInfo_v of
        None \<Rightarrow> True
      | Some li \<Rightarrow>
          subject newInfo \<noteq> subject li \<or> date newInfo \<noteq> date li
          \<or> body newInfo \<noteq> body li)"

text \<open>
  The callback of the widget's \<open>MutationObserver\<close>.  An exception from
  \<open>getGmailInfo\<close> would end the callback with nothing posted.
\<close>

definition auto_refresh :: "floating_state \<Rightarrow> floating_state" where
  "auto_refresh st =
     (case getElementById ''gmail-floating-iframe'' (fdoc st) of
        None \<Rightarrow> st
      | Some iframe \<Rightarrow>
          if style_display iframe \<noteq> ''none'' then
            (case getGmailInfo (location_hash st) (fdoc st) of
               Inl e \<Rightarrow> st
             | Inr info \<Rightarrow>
                 if infoChanged (lastInfo st) info then
                   st\<lparr>posted := posted st @ [info], lastInfo := Some info\<rparr>
                 else st)
          else st)"


section \<open>Example documents\<close>

text \<open>
  A conversation view as Gmail renders it, reduced to what the selectors look at: the
  action toolbar with its button groups, and the message body.
\<close>

definition grp :: "string \<Rightarrow> node" where
  "grp t = Element ''div'' [] [''G-Ni''] [] [] t [Text t]"

definition gmail_doc :: "node list" where
  "gmail_doc =
    [Element ''div'' [] [''aeH''] [] [] []
       [Element ''div'' [] [''G-atb''] [] [] []
          [grp ''Archive'', grp ''Delete'', grp ''Mark as unread'', grp ''More'']],
     Element ''div'' [] [''a3s'', ''aiL''] [] [] ''Hi'' [Text ''Hi'']]"

text \<open>The inbox list: a toolbar, but no message body.\<close>

definition inbox_doc :: "node list" where
  "inbox_doc =
    [Element ''div'' [] [''aeH''] [] [] []
       [Element ''div'' [] [''G-atb''] [] [] [] [grp ''Refresh'', grp ''More'']]]"

text \<open>An open message from \<open>who\<close>, with the widget's iframe showing.\<close>

definition mail_doc :: "string \<Rightarrow> node list" where
  "mail_doc who =
    [Element ''iframe'' ''gmail-floating-iframe'' [] [] [(''display'', ''block'')] [] [],
     Element ''h2'' [] [''hP''] [] [] ''Lunch'' [Text ''Lunch''],
     Element ''span'' [] [''gD''] [] [] who [Text who],
     Element ''span'' [] [''g3''] [(''title'', ''Mon, 3 Nov'')] [] ''3 Nov'' [Text ''3 Nov''],
     Element ''div'' [] [''a3s'', ''aiL''] [] [] ''See you at noon'' [Text ''See you at noon'']]"


section \<open>Notions used in the proofs\<close>

text \<open>
  What a compound selector without \<open>:nth-of-type\<close> looks at in a node: tag name and
  classes.  Ancestor lists agree for such selectors when they agree in these.
\<close>

fun head_of :: "node \<Rightarrow> (string \<times> string list) option" where
  "head_of (Text d) = None"
| "head_of (Element tg i cl at sty it kids) = Some (tg, cl)"

definition nth_free :: "selector \<Rightarrow> bool" where
  "nth_free sel = list_all (\<lambda>c. sel_nth_of_type c = None) sel"

definition same_heads :: "(node \<times> nat) list \<Rightarrow> (node \<times> nat) list \<Rightarrow> bool" where
  "same_heads anc anc' = list_all2 (\<lambda>x y. head_of (fst x) = head_of (fst y)) anc anc'"

text \<open>The pending timers set by the debounced wrapper.\<close>

definition is_later :: "timer \<Rightarrow> bool" where
  "is_later tm = (cb tm = Later)"

definition laters :: "content_state \<Rightarrow> timer list" where
  "laters st = filter is_later (timers st)"

text \<open>
  The wrapper is armed at time \<open>u\<close> on the document \<open>d\<close>: the only pending timer
  is the one it set at \<open>u\<close>, held in \<open>timeout\<close>, and a notification about \<open>d\<close>
  gets through to it.
\<close>

definition armed :: "content_state \<Rightarrow> nat \<Rightarrow> node list \<Rightarrow> bool" where
  "armed st u d =
     (now st = u \<and> doc st = d \<and> gate_open d [''childList'']
      \<and> (case timeout st of
            None \<Rightarrow> False
          | Some i \<Rightarrow> timers st = [\<lparr>timer_id = i, due = u + 500, cb = Later\<rparr>]))"

section \<open>Properties of the background script\<close>

lemma string_of_nat_503: "string_of_nat 503 = ''503''"
  by (simp add: string_of_nat.simps digit_char_def)

lemma sublist_mid: "sublist b (a @ b @ c)"
  by (rule sublist_appendI)

lemma sublist_end: "sublist b (a @ b)"
  using sublist_appendI [of b a "[]"] by simp

text \<open>
  Claim C1 as stated fails: a \<open>summarizeEmail\<close> request without content writes
  status \<open>error\<close> at once, with no \<open>loading\<close> write before it.
\<close>

theorem C1_missing_content_counterexample:
  "status_writes (summarize_run \<lparr>action = ''summarizeEmail'', content = None\<rparr> None) = [''error'']
   \<and> \<not> preceded_by_loading
         (status_writes (summarize_run \<lparr>action = ''summarizeEmail'', content = None\<rparr> None))"
  by (simp add: summarize_run_def onMessage_def falsy_def updateSummaryState_def)

text \<open>
  Claim C1, amended.  For a \<open>summarizeEmail\<close> request the status writes are:
  only \<open>error\<close> when the content is missing or empty; otherwise \<open>loading\<close>,
  followed, once the fetch has settled, by exactly one of \<open>success\<close> and
  \<open>error\<close>.  So with content every final write comes right after the
  \<open>loading\<close> write of its request.
\<close>

theorem C1_status_sequences:
  "action req = ''summarizeEmail'' \<Longrightarrow>
     (falsy (content req) \<longrightarrow> status_writes (summarize_run req settled) = [''error''])
   \<and> (\<not> falsy (content req) \<longrightarrow> settled = None \<longrightarrow>
         status_writes (summarize_run req settled) = [''loading''])
   \<and> (\<not> falsy (content req) \<longrightarrow> settled \<noteq> None \<longrightarrow>
         status_writes (summarize_run req settled) = [''loading'', ''success'']
       \<or> status_writes (summarize_run req settled) = [''loading'', ''error''])
   \<and> (\<not> falsy (content req) \<longrightarrow>
         preceded_by_loading (status_writes (summarize_run req settled)))"
  by (auto simp: summarize_run_def onMessage_def updateSummaryState_def fetch_settled_def
        on_error_def on_summary_def Let_def
        split: option.splits fetch_outcome.splits sum.splits)

text \<open>Both sequences occur: a 200 response and a 503 response.\<close>

theorem C1_status_sequences_witness:
  "status_writes (summarize_run \<lparr>action = ''summarizeEmail'', content = Some ''<p>Hi</p>''\<rparr>
       (Some (Resolved \<lparr>status = 200, text_result = Inr ''Hello summary''\<rparr>)))
     = [''loading'', ''success'']
   \<and> status_writes (summarize_run \<lparr>action = ''summarizeEmail'', content = Some ''<p>Hi</p>''\<rparr>
       (Some (Resolved \<lparr>status = 503, text_result = Inr ''overloaded''\<rparr>)))
     = [''loading'', ''error'']"
  using C1_status_sequences [of "\<lparr>action = ''summarizeEmail'', content = Some ''<p>Hi</p>''\<rparr>"
          "Some (Resolved \<lparr>status = 200, text_result = Inr ''Hello summary''\<rparr>)"]
  by (simp add: summarize_run_def onMessage_def falsy_def updateSummaryState_def fetch_settled_def
        on_response_def ok_def on_summary_def on_error_def or_else_def new_Error_def)

text \<open>
  Claim C5 as stated fails at a 200 response with an empty body: the persisted payload
  is the placeholder, not the body.
\<close>

theorem C5_empty_body_counterexample:
  "apply_effects (fetch_settled (Resolved \<lparr>status = 200, text_result = Inr ''''\<rparr>)) Map.empty
      ''emailSummary'' = Some ''Backend returned empty summary.''
   \<and> apply_effects (fetch_settled (Resolved \<lparr>status = 200, text_result = Inr ''''\<rparr>)) Map.empty
      ''emailSummary'' \<noteq> Some ''''"
  by (simp add: fetch_settled_def on_response_def ok_def on_summary_def or_else_def
        updateSummaryState_def storage_set_def)

text \<open>
  Claim C5, amended.  For every response with a 2xx status and a non-empty body the
  only effect is one write of status \<open>success\<close> with the body text itself as
  payload, and both storage keys hold exactly that afterwards.
\<close>

theorem C5_success_verbatim:
  "200 \<le> s \<and> s \<le> 299 \<Longrightarrow> btext \<noteq> [] \<Longrightarrow>
     fetch_settled (Resolved \<lparr>status = s, text_result = Inr btext\<rparr>) = [StorageSet ''success'' btext]
   \<and> apply_effects (fetch_settled (Resolved \<lparr>status = s, text_result = Inr btext\<rparr>)) st
        = st(''summaryStatus'' \<mapsto> ''success'', ''emailSummary'' \<mapsto> btext)"
  by (simp add: fetch_settled_def on_response_def ok_def on_summary_def or_else_def
        updateSummaryState_def storage_set_def)

text \<open>Scenario 1 of the specification: status 200, body \<open>Hello summary\<close>.\<close>

theorem C5_success_verbatim_witness:
  "apply_effects (fetch_settled (Resolved \<lparr>status = 200, text_result = Inr ''Hello summary''\<rparr>))
       Map.empty ''summaryStatus'' = Some ''success''
   \<and> apply_effects (fetch_settled (Resolved \<lparr>status = 200, text_result = Inr ''Hello summary''\<rparr>))
       Map.empty ''emailSummary'' = Some ''Hello summary''"
  using C5_success_verbatim [of 200 "''Hello summary''" Map.empty]
  by (simp add: storage_set_def)

text \<open>
  Claim C6.  For every response whose status is not 2xx the only effect is one write
  of status \<open>error\<close>; its payload is the fixed prefix, the decimal status code,
  \<open>. Details: \<close> and the body text, so it contains both the code and the body.
\<close>

theorem C6_non_2xx_error:
  "\<not> (200 \<le> s \<and> s \<le> 299) \<Longrightarrow>
     fetch_settled (Resolved \<lparr>status = s, text_result = Inr btext\<rparr>)
       = [StorageSet ''error''
           (''Summarization Failed: Error during backend call: Backend responded with ''
              @ string_of_nat s @ ''. Details: '' @ btext)]
   \<and> (\<exists>payload.
         apply_effects (fetch_settled (Resolved \<lparr>status = s, text_result = Inr btext\<rparr>)) st
           = st(''summaryStatus'' \<mapsto> ''error'', ''emailSummary'' \<mapsto> payload)
         \<and> sublist (string_of_nat s) payload \<and> sublist btext payload)"
proof -
  assume nok: "\<not> (200 \<le> s \<and> s \<le> 299)"
  let ?pre = "''Summarization Failed: Error during backend call: Backend responded with ''"
  let ?payload = "?pre @ string_of_nat s @ ''. Details: '' @ btext"
  have run: "fetch_settled (Resolved \<lparr>status = s, text_result = Inr btext\<rparr>)
               = [StorageSet ''error'' ?payload]"
    using nok
    by (simp add: fetch_settled_def on_response_def ok_def on_error_def or_else_def
          new_Error_def updateSummaryState_def)
  have s1: "sublist (string_of_nat s) ?payload"
    by (rule sublist_mid)
  have s2: "sublist btext ?payload"
    using sublist_end [of btext "?pre @ string_of_nat s @ ''. Details: ''"] by simp
  have st: "apply_effects [StorageSet ''error'' ?payload] st
              = st(''summaryStatus'' \<mapsto> ''error'', ''emailSummary'' \<mapsto> ?payload)"
    by (simp add: storage_set_def)
  show ?thesis
    using run s1 s2 st by (intro conjI exI [of _ ?payload]) simp_all
qed

text \<open>Scenario 2 of the specification: status 503, body \<open>overloaded\<close>.\<close>

theorem C6_non_2xx_error_witness:
  "fetch_settled (Resolved \<lparr>status = 503, text_result = Inr ''overloaded''\<rparr>)
     = [StorageSet ''error''
         ''Summarization Failed: Error during backend call: Backend responded with 503. Details: overloaded'']"
  using C6_non_2xx_error [of 503 "''overloaded''" Map.empty]
  by (simp add: string_of_nat_503)

text \<open>
  Claim C9.  A \<open>summarizeEmail\<close> message gets exactly one call of the response
  callback, made synchronously: \<open>error\<close> when the content is missing or empty,
  otherwise \<open>processing\<close>, issued before the fetch is even started.  The promise
  chain that runs when the fetch settles never calls the callback; it only writes
  \<open>success\<close> or \<open>error\<close> to storage.
\<close>

theorem C9_immediate_ack:
  "action req = ''summarizeEmail'' \<Longrightarrow>
     responses_of (fst (onMessage req))
       = [if falsy (content req) then (''error'', ''No content provided'')
          else (''processing'', ''Summarization request sent to backend.'')]
   \<and> (\<not> falsy (content req) \<longrightarrow>
         fst (onMessage req)
           = [StorageSet ''loading'' ''Sending content to backend...'',
              SendResponse ''processing'' ''Summarization request sent to backend.'',
              FetchPost ''http://localhost:8000/email/summarize-content'' (the (content req))])
   \<and> (falsy (content req) \<longrightarrow> fetches_of (fst (onMessage req)) = [])
   \<and> responses_of (fetch_settled out) = []
   \<and> status_writes (fetch_settled out) \<in> {[''success''], [''error'']}"
  by (auto simp: onMessage_def updateSummaryState_def fetch_settled_def API_BASE_URL_def
        on_error_def on_summary_def Let_def
        split: option.splits fetch_outcome.splits sum.splits)

text \<open>A request with content, answered by the backend with 200.\<close>

theorem C9_immediate_ack_witness:
  "responses_of (fst (onMessage \<lparr>action = ''summarizeEmail'', content = Some ''<p>Hi</p>''\<rparr>))
     = [(''processing'', ''Summarization request sent to backend.'')]
   \<and> responses_of (fetch_settled (Resolved \<lparr>status = 200, text_result = Inr ''Hello summary''\<rparr>)) = []"
  using C9_immediate_ack [of "\<lparr>action = ''summarizeEmail'', content = Some ''<p>Hi</p>''\<rparr>"
          "Resolved \<lparr>status = 200, text_result = Inr ''Hello summary''\<rparr>"]
  by (simp add: falsy_def)

text \<open>
  Claim C10.  A 2xx response with an empty body is persisted as status
  \<open>success\<close> with the placeholder \<open>Backend returned empty summary.\<close>
\<close>

theorem C10_empty_summary_placeholder:
  "200 \<le> s \<and> s \<le> 299 \<Longrightarrow>
     fetch_settled (Resolved \<lparr>status = s, text_result = Inr ''''\<rparr>)
       = [StorageSet ''success'' ''Backend returned empty summary.'']
   \<and> apply_effects (fetch_settled (Resolved \<lparr>status = s, text_result = Inr ''''\<rparr>)) st
       = st(''summaryStatus'' \<mapsto> ''success'',
            ''emailSummary'' \<mapsto> ''Backend returned empty summary.'')"
  by (simp add: fetch_settled_def on_response_def ok_def on_summary_def or_else_def
        updateSummaryState_def storage_set_def)

text \<open>A 204 response, whose body is empty.\<close>

theorem C10_empty_summary_placeholder_witness:
  "fetch_settled (Resolved \<lparr>status = 204, text_result = Inr ''''\<rparr>)
     = [StorageSet ''success'' ''Backend returned empty summary.'']"
  using C10_empty_summary_placeholder [of 204 Map.empty]
  by simp


section \<open>Properties of the toolbar button\<close>

text \<open>An id is found in the document exactly when some element carries it.\<close>

lemma find_id_count:
  "(find_id x n = None) = (count_id x n = 0)"
  "(find_id_list x ns = None) = (count_id_list x ns = 0)"
  by (induction x n and x ns rule: find_id_find_id_list.induct) (auto split: option.splits)

lemma count_id_insertBefore:
  "count_id_list x (insertBefore p new ns) \<le> count_id_list x ns + count_id x new"
  "count_id x (insertBefore_in p new n) \<le> count_id x n + count_id x new"
  by (induction p new ns and p new n rule: insertBefore_insertBefore_in.induct)
     (auto split: nat.splits)

lemma count_id_wrapper: "count_id BUTTON_ID summarizeBtnWrapper = 1"
  by (simp add: summarizeBtnWrapper_def summarizeBtn_def BUTTON_ID_def)

lemma addSummarizeButton_count:
  "count_id_list BUTTON_ID (doc st) \<le> 1 \<Longrightarrow>
     count_id_list BUTTON_ID (doc (addSummarizeButton st)) \<le> 1"
proof (cases "getElementById BUTTON_ID (doc st)")
  case None
  assume "count_id_list BUTTON_ID (doc st) \<le> 1"
  have zero: "count_id_list BUTTON_ID (doc st) = 0"
    using None by (simp add: getElementById_def find_id_count)
  show ?thesis
  proof (cases "querySelectorPath TOOLBAR_INSERTION_POINT_SELECTOR (doc st)")
    case None
    then show ?thesis
      using zero \<open>getElementById BUTTON_ID (doc st) = None\<close>
      by (simp add: addSummarizeButton_def setTimeout_def)
  next
    case (Some a)
    obtain p e where a: "a = (p, e)" by (cases a) auto
    have "doc (addSummarizeButton st) = insertBefore p summarizeBtnWrapper (doc st)"
      using Some a \<open>getElementById BUTTON_ID (doc st) = None\<close>
      by (simp add: addSummarizeButton_def)
    then show ?thesis
      using count_id_insertBefore(1) [of BUTTON_ID p summarizeBtnWrapper "doc st"] zero
      by (simp add: count_id_wrapper)
  qed
next
  case (Some e)
  assume "count_id_list BUTTON_ID (doc st) \<le> 1"
  then show ?thesis
    using Some by (simp add: addSummarizeButton_def)
qed

lemma addSummarizeButton_funpow_count:
  "count_id_list BUTTON_ID (doc st) \<le> 1 \<Longrightarrow>
     count_id_list BUTTON_ID (doc ((addSummarizeButton ^^ n) st)) \<le> 1"
proof (induction n)
  case 0
  then show ?case by simp
next
  case (Suc n)
  then show ?case
    using addSummarizeButton_count [of "(addSummarizeButton ^^ n) st"] by simp
qed

text \<open>
  Claim C2.  When an element with the button's id is already in the document,
  \<open>addSummarizeButton\<close> changes nothing at all: not the document, not the retry
  flag, not the timers.  Consequently, in a document with at most one such element,
  any number of calls leaves at most one.  The floating widget is guarded in the same
  way by its flag: a second run of the injection changes nothing.
\<close>

theorem C2_reconcile_idempotent:
  "(getElementById BUTTON_ID (doc st) \<noteq> None \<longrightarrow> addSummarizeButton st = st)
   \<and> (count_id_list BUTTON_ID (doc st) \<le> 1 \<longrightarrow>
        count_id_list BUTTON_ID (doc ((addSummarizeButton ^^ n) st)) \<le> 1)
   \<and> (gmailFloatingInjected fs \<longrightarrow> floating_inject fs = fs)"
  using addSummarizeButton_funpow_count [of st n]
  by (simp add: addSummarizeButton_def floating_inject_def)

text \<open>
  In the example conversation view the first call inserts the button, a further call
  changes nothing, and one button is there.
\<close>

theorem C2_reconcile_idempotent_witness:
  "addSummarizeButton (script_start gmail_doc 0) = script_start gmail_doc 0
   \<and> count_id_list BUTTON_ID (doc (script_start gmail_doc 0)) = 1
   \<and> count_id_list BUTTON_ID (doc ((addSummarizeButton ^^ 3) (initial_state gmail_doc 0))) \<le> 1"
proof -
  have a: "getElementById BUTTON_ID (doc (script_start gmail_doc 0)) \<noteq> None"
    by code_simp
  have b: "count_id_list BUTTON_ID (doc (script_start gmail_doc 0)) = 1"
    by code_simp
  have c: "count_id_list BUTTON_ID (doc (initial_state gmail_doc 0)) \<le> 1"
    by code_simp
  show ?thesis
    using C2_reconcile_idempotent [of "script_start gmail_doc 0" 0 
            "\<lparr>fdoc = [], location_hash = [], gmailFloatingInjected = True, lastInfo = None, posted = []\<rparr>"]
          C2_reconcile_idempotent [of "initial_state gmail_doc 0" 3
            "\<lparr>fdoc = [], location_hash = [], gmailFloatingInjected = True, lastInfo = None, posted = []\<rparr>"]
          a b c
    by simp
qed

text \<open>
  The same holds over a whole run of the script: whatever timers fire and whatever
  signals arrive, as long as the documents the host page presents carry the id at most
  once, the document carries it at most once at any time.
\<close>

lemma executedFunction_doc: "doc (executedFunction st) = doc st"
  by (simp add: executedFunction_def setTimeout_def clearTimeout_def Let_def split: option.splits)

lemma callback_doc: "doc (callback recs st) = doc st"
  by (induction recs) (simp_all add: executedFunction_doc Let_def)

lemma observed_doc: "doc (addSummarizeButton_observed st) = doc (addSummarizeButton st)"
  by (simp add: addSummarizeButton_observed_def callback_doc Let_def)

lemma fire_count:
  "count_id_list BUTTON_ID (doc st) \<le> 1 \<Longrightarrow> count_id_list BUTTON_ID (doc (fire tm st)) \<le> 1"
proof -
  assume c: "count_id_list BUTTON_ID (doc st) \<le> 1"
  let ?st1 = "st\<lparr>timers := remove1 tm (timers st), now := max (now st) (due tm)\<rparr>"
  let ?st2 = "clearTimeout (timeout ?st1) ?st1"
  let ?st3 = "?st2\<lparr>later_runs := later_runs ?st2 @ [now ?st2]\<rparr>"
  have d3: "doc ?st3 = doc st"
    by (simp add: clearTimeout_def split: option.splits)
  show ?thesis
  proof (cases "cb tm")
    case Retry
    then have "doc (fire tm st) = doc (addSummarizeButton ?st1)"
      by (simp add: fire_def observed_doc)
    then show ?thesis using addSummarizeButton_count [of ?st1] c by simp
  next
    case Later
    then have "doc (fire tm st) = doc (addSummarizeButton ?st3)"
      by (simp add: fire_def later_def Let_def observed_doc)
    then show ?thesis using addSummarizeButton_count [of ?st3] c d3 by simp
  qed
qed

lemma run_due_count:
  "count_id_list BUTTON_ID (doc st) \<le> 1 \<Longrightarrow> count_id_list BUTTON_ID (doc (run_due t st)) \<le> 1"
proof (induction t st rule: run_due.induct)
  case (1 t st)
  show ?case
  proof (cases "earliest (timers st)")
    case None
    then show ?thesis using "1.prems" by (simp add: run_due.simps [of t st])
  next
    case (Some tm)
    show ?thesis
    proof (cases "due tm \<le> t")
      case True
      have "count_id_list BUTTON_ID (doc (run_due t (fire tm st))) \<le> 1"
        using "1.IH" [OF Some True] fire_count [OF "1.prems"] by simp
      then show ?thesis using Some True by (simp add: run_due.simps [of t st])
    next
      case False
      then show ?thesis using Some "1.prems" by (simp add: run_due.simps [of t st])
    qed
  qed
qed

lemma observe_all_count:
  "list_all (\<lambda>sig. count_id_list BUTTON_ID (fst (snd sig)) \<le> 1) sigs \<Longrightarrow>
   count_id_list BUTTON_ID (doc st) \<le> 1 \<Longrightarrow>
     count_id_list BUTTON_ID (doc (advance t (observe_all sigs st))) \<le> 1"
proof (induction sigs arbitrary: st)
  case Nil
  then show ?case using run_due_count [of st t] by (simp add: advance_def Let_def)
next
  case (Cons sig sigs)
  obtain v d recs where sig: "sig = (v, d, recs)" by (cases sig) auto
  have "doc (observe sig st) = d"
    by (simp add: sig observe_def callback_doc)
  then have "count_id_list BUTTON_ID (doc (observe sig st)) \<le> 1"
    using Cons.prems(1) by (simp add: sig)
  then show ?case
    using Cons.IH [of "observe sig st"] Cons.prems(1) by simp
qed

lemma no_anchor_empty: "querySelectorPath TOOLBAR_INSERTION_POINT_SELECTOR [] = None"
  by (simp add: querySelectorPath_def)

text \<open>
  Claim C3 as stated fails.  The flag is a toggle, not a guard: a call that finds the
  anchor missing while the flag is set clears the flag.  So with the anchor missing,
  three calls in a row leave two retries pending; and after two calls, the retry itself,
  when it runs and fails, sets a further retry.
\<close>

theorem C3_stacked_retries_counterexample:
  "timers (addSummarizeButton (addSummarizeButton (addSummarizeButton (initial_state [] 0))))
     = [\<lparr>timer_id = 1, due = 500, cb = Retry\<rparr>, \<lparr>timer_id = 2, due = 500, cb = Retry\<rparr>]
   \<and> timers (fire \<lparr>timer_id = 1, due = 500, cb = Retry\<rparr>
               (addSummarizeButton (addSummarizeButton (initial_state [] 0))))
     = [\<lparr>timer_id = 2, due = 1000, cb = Retry\<rparr>]"
  by (simp add: addSummarizeButton_def initial_state_def getElementById_def no_anchor_empty
        setTimeout_def fire_def addSummarizeButton_observed_def own_records_def)

text \<open>
  Claim C3, amended.  Let the button and the insertion anchor both be missing.  With
  the flag clear, \<open>addSummarizeButton\<close> sets the flag and sets exactly one timer,
  for itself, due 500 ms later, and does nothing else; one more call before the timer
  fires sets no timer; and the retry, when it runs with the flag still set and the
  anchor still missing, clears the flag and sets no timer.  With the flag set,
  \<open>addSummarizeButton\<close> only clears the flag.
\<close>

theorem C3_single_retry:
  "getElementById BUTTON_ID (doc st) = None \<Longrightarrow>
   querySelectorPath TOOLBAR_INSERTION_POINT_SELECTOR (doc st) = None \<Longrightarrow>
     (\<not> addSummarizeButtonRetried st \<longrightarrow>
        addSummarizeButton st
          = st\<lparr>addSummarizeButtonRetried := True,
               timers := timers st @ [\<lparr>timer_id = next_timer_id st, due = now st + 500, cb = Retry\<rparr>],
               next_timer_id := Suc (next_timer_id st)\<rparr>
        \<and> timers (addSummarizeButton (addSummarizeButton st)) = timers (addSummarizeButton st)
        \<and> length (timers (fire \<lparr>timer_id = next_timer_id st, due = now st + 500, cb = Retry\<rparr>
                             (addSummarizeButton st))) = length (timers st)
        \<and> \<not> addSummarizeButtonRetried
              (fire \<lparr>timer_id = next_timer_id st, due = now st + 500, cb = Retry\<rparr>
                 (addSummarizeButton st)))
   \<and> (addSummarizeButtonRetried st \<longrightarrow>
        addSummarizeButton st = st\<lparr>addSummarizeButtonRetried := False\<rparr>)"
  by (simp add: addSummarizeButton_def setTimeout_def fire_def length_remove1
        addSummarizeButton_observed_def own_records_def)

text \<open>The first attempt and its retry in an empty document.\<close>

theorem C3_single_retry_witness:
  "addSummarizeButton (initial_state [] 0)
     = \<lparr>doc = [], addSummarizeButtonRetried = True, now = 0,
        timers = [\<lparr>timer_id = 1, due = 500, cb = Retry\<rparr>], next_timer_id = 2,
        timeout = None, later_runs = []\<rparr>
   \<and> fire \<lparr>timer_id = 1, due = 500, cb = Retry\<rparr> (addSummarizeButton (initial_state [] 0))
     = \<lparr>doc = [], addSummarizeButtonRetried = False, now = 500, timers = [], next_timer_id = 2,
        timeout = None, later_runs = []\<rparr>"
proof -
  have a: "getElementById BUTTON_ID (doc (initial_state [] 0)) = None"
    by (simp add: initial_state_def getElementById_def)
  have b: "querySelectorPath TOOLBAR_INSERTION_POINT_SELECTOR (doc (initial_state [] 0)) = None"
    by (simp add: initial_state_def no_anchor_empty)
  show ?thesis
    using C3_single_retry [OF a b]
    by (simp add: initial_state_def fire_def addSummarizeButton_def getElementById_def
          no_anchor_empty addSummarizeButton_observed_def own_records_def)
qed

text \<open>
  Scenario 3 of the specification: the anchor is missing at the first attempt and
  there when the retry runs.  The retry inserts one button, sets no further retry and
  clears the flag.  The observer reports the insertion, which arms the debounced
  wrapper; its call 500 ms later finds the button and leaves no timer behind.
\<close>

lemma retry_finds_anchor:
  "count_id_list BUTTON_ID (doc (advance 500 ((script_start [] 0)\<lparr>doc := gmail_doc\<rparr>))) = 1
   \<and> timers (advance 500 ((script_start [] 0)\<lparr>doc := gmail_doc\<rparr>))
       = [\<lparr>timer_id = 2, due = 1000, cb = Later\<rparr>]
   \<and> \<not> addSummarizeButtonRetried (advance 500 ((script_start [] 0)\<lparr>doc := gmail_doc\<rparr>))
   \<and> count_id_list BUTTON_ID (doc (advance 1000 ((script_start [] 0)\<lparr>doc := gmail_doc\<rparr>))) = 1
   \<and> timers (advance 1000 ((script_start [] 0)\<lparr>doc := gmail_doc\<rparr>)) = []"
  by code_simp


section \<open>Properties of the debounced wrapper\<close>

subsection \<open>The insertion of the button keeps the gate open\<close>

text \<open>
  The selectors of the main toolbar and of the email body have no \<open>:nth-of-type\<close>
  part, so whether they match somewhere does not depend on positions among siblings,
  and a node put into the document takes no match away.
\<close>

lemma matches_compound_head:
  "sel_nth_of_type c = None \<Longrightarrow> head_of e = head_of e' \<Longrightarrow>
     matches_compound c e k = matches_compound c e' k'"
  by (cases e; cases e') auto

lemma matches_ancestors_head:
  "list_all (\<lambda>c. sel_nth_of_type c = None) cs \<Longrightarrow> same_heads anc anc' \<Longrightarrow>
     matches_ancestors cs anc = matches_ancestors cs anc'"
proof (induction cs anc arbitrary: anc' rule: matches_ancestors.induct)
  case (1 anc)
  then show ?case by simp
next
  case (2 c cs)
  then show ?case by (simp add: same_heads_def)
next
  case (3 c cs a k anc)
  from "3.prems"(2) obtain b k' rest where anc': "anc' = (b, k') # rest"
    and hd: "head_of a = head_of b" and tl: "same_heads anc rest"
    by (cases anc') (auto simp: same_heads_def)
  have c: "sel_nth_of_type c = None" and cs: "list_all (\<lambda>c. sel_nth_of_type c = None) cs"
    using "3.prems"(1) by simp_all
  have m: "matches_compound c a k = matches_compound c b k'"
    using c hd by (rule matches_compound_head)
  show ?case
  proof (cases "matches_compound c a k")
    case True
    then show ?thesis
      using "3.IH"(1) [OF True cs tl] m by (simp add: anc')
  next
    case False
    then show ?thesis
      using "3.IH"(2) [OF False "3.prems"(1) tl] m by (simp add: anc')
  qed
qed

lemma matches_head:
  "nth_free sel \<Longrightarrow> same_heads anc anc' \<Longrightarrow> head_of e = head_of e' \<Longrightarrow>
     matches sel anc e k = matches sel anc' e' k'"
proof -
  assume nf: "nth_free sel" and sh: "same_heads anc anc'" and hd: "head_of e = head_of e'"
  show ?thesis
  proof (cases "rev sel")
    case Nil
    then show ?thesis by (simp add: matches_def)
  next
    case (Cons c cs)
    have "list_all (\<lambda>c. sel_nth_of_type c = None) (rev sel)"
      using nf by (simp add: nth_free_def)
    then have c: "sel_nth_of_type c = None" and cs: "list_all (\<lambda>c. sel_nth_of_type c = None) cs"
      using Cons by simp_all
    show ?thesis
      using matches_compound_head [OF c hd, of k k'] matches_ancestors_head [OF cs sh]
      by (simp add: matches_def Cons)
  qed
qed

lemma query_found_head:
  "nth_free sel \<Longrightarrow> same_heads anc anc' \<Longrightarrow>
     (query_node sel anc prev n = None) = (query_node sel anc' prev' n = None)"
  "nth_free sel \<Longrightarrow> same_heads anc anc' \<Longrightarrow>
     (query_nodes sel anc prev ns = None) = (query_nodes sel anc' prev' ns = None)"
proof (induction sel anc prev n and sel anc prev ns arbitrary: anc' prev' and anc' prev'
       rule: query_node_query_nodes.induct)
  case (1 sel anc prev d)
  then show ?case by simp
next
  case (2 sel anc prev tg i cl at sty it kids)
  let ?e = "Element tg i cl at sty it kids"
  let ?k = "nth_of_type prev ?e" and ?k' = "nth_of_type prev' ?e"
  have m: "matches sel anc ?e ?k = matches sel anc' ?e ?k'"
    using "2.prems" by (intro matches_head) simp_all
  show ?case
  proof (cases "matches sel anc ?e ?k")
    case True
    then show ?thesis using m by (simp add: Let_def)
  next
    case False
    have sh: "same_heads ((?e, ?k) # anc) ((?e, ?k') # anc')"
      using "2.prems"(2) by (simp add: same_heads_def)
    have "(query_nodes sel ((?e, ?k) # anc) [] kids = None)
          = (query_nodes sel ((?e, ?k') # anc') [] kids = None)"
      using "2.IH" [OF refl refl False "2.prems"(1) sh] .
    then show ?thesis using False m by (simp add: Let_def)
  qed
next
  case (3 sel anc prev)
  then show ?case by simp
next
  case (4 sel anc prev n rest)
  have a: "(query_node sel anc prev n = None) = (query_node sel anc' prev' n = None)"
    using "4.IH"(1) [OF "4.prems"] .
  show ?case
  proof (cases "query_node sel anc prev n")
    case None
    then have n': "query_node sel anc' prev' n = None" using a by simp
    have "(query_nodes sel anc (prev @ [n]) rest = None)
          = (query_nodes sel anc' (prev' @ [n]) rest = None)"
      using "4.IH"(2) [OF None "4.prems"] .
    then show ?thesis using None n' by simp
  next
    case (Some r)
    then obtain r' where "query_node sel anc' prev' n = Some r'" using a by auto
    then show ?thesis using Some by (auto split: prod.splits)
  qed
qed

lemma head_of_insertBefore_in [simp]: "head_of (insertBefore_in p new n) = head_of n"
  by (cases n) simp_all

lemma query_nodes_Cons_found:
  "query_nodes sel anc prev (n # rest) \<noteq> None
     \<longleftrightarrow> query_node sel anc prev n \<noteq> None \<or> query_nodes sel anc (prev @ [n]) rest \<noteq> None"
  by (auto split: option.splits)

lemma query_node_Element_found:
  "query_node sel anc prev (Element tg i cl at sty it kids) \<noteq> None
     \<longleftrightarrow> matches sel anc (Element tg i cl at sty it kids)
           (nth_of_type prev (Element tg i cl at sty it kids))
         \<or> query_nodes sel
              ((Element tg i cl at sty it kids, nth_of_type prev (Element tg i cl at sty it kids)) # anc)
              [] kids \<noteq> None"
  by (simp add: Let_def)

lemma query_found_insertBefore:
  "nth_free sel \<Longrightarrow> same_heads anc anc' \<Longrightarrow> query_nodes sel anc prev ns \<noteq> None \<Longrightarrow>
     query_nodes sel anc' prev' (insertBefore p new ns) \<noteq> None"
  "nth_free sel \<Longrightarrow> same_heads anc anc' \<Longrightarrow> query_node sel anc prev n \<noteq> None \<Longrightarrow>
     query_node sel anc' prev' (insertBefore_in p new n) \<noteq> None"
proof (induction p new ns and p new n arbitrary: anc anc' prev prev' and anc anc' prev prev'
       rule: insertBefore_insertBefore_in.induct)
  case (1 new ns)
  then show ?case using query_found_head(2) [of sel anc anc' prev ns prev'] by simp
next
  case (2 i p new)
  then show ?case by simp
next
  case (3 i p new n rest)
  note nf = "3.prems"(1) and sh = "3.prems"(2)
  from "3.prems"(3) have found:
    "query_node sel anc prev n \<noteq> None \<or> query_nodes sel anc (prev @ [n]) rest \<noteq> None"
    by (simp only: query_nodes_Cons_found)
  show ?case
  proof (cases i)
    case 0
    show ?thesis
    proof (cases "p = []")
      case True
      have "query_nodes sel anc' (prev' @ [new]) (n # rest) \<noteq> None"
        using query_found_head(2) [OF nf sh, of prev "n # rest" "prev' @ [new]"] "3.prems"(3)
        by simp
      then have "query_nodes sel anc' prev' (new # n # rest) \<noteq> None"
        by (subst query_nodes_Cons_found) simp
      then show ?thesis using 0 True by simp
    next
      case False
      from found show ?thesis
      proof
        assume "query_node sel anc prev n \<noteq> None"
        then have "query_node sel anc' prev' (insertBefore_in p new n) \<noteq> None"
          using "3.IH"(1) [OF 0 False nf sh] by simp
        then have "query_nodes sel anc' prev' (insertBefore_in p new n # rest) \<noteq> None"
          by (subst query_nodes_Cons_found) simp
        then show ?thesis using 0 False by simp
      next
        assume "query_nodes sel anc (prev @ [n]) rest \<noteq> None"
        then have "query_nodes sel anc' (prev' @ [insertBefore_in p new n]) rest \<noteq> None"
          using query_found_head(2) [OF nf sh, of "prev @ [n]" rest
                  "prev' @ [insertBefore_in p new n]"] by simp
        then have "query_nodes sel anc' prev' (insertBefore_in p new n # rest) \<noteq> None"
          by (subst query_nodes_Cons_found) simp
        then show ?thesis using 0 False by simp
      qed
    qed
  next
    case (Suc j)
    from found show ?thesis
    proof
      assume "query_node sel anc prev n \<noteq> None"
      then have "query_node sel anc' prev' n \<noteq> None"
        using query_found_head(1) [OF nf sh, of prev n prev'] by simp
      then have "query_nodes sel anc' prev' (n # insertBefore (j # p) new rest) \<noteq> None"
        by (subst query_nodes_Cons_found) simp
      then show ?thesis using Suc by simp
    next
      assume "query_nodes sel anc (prev @ [n]) rest \<noteq> None"
      then have "query_nodes sel anc' (prev' @ [n]) (insertBefore (j # p) new rest) \<noteq> None"
        using "3.IH"(2) [OF Suc nf sh] by simp
      then have "query_nodes sel anc' prev' (n # insertBefore (j # p) new rest) \<noteq> None"
        by (subst query_nodes_Cons_found) simp
      then show ?thesis using Suc by simp
    qed
  qed
next
  case (4 p new d)
  then show ?case by simp
next
  case (5 p new tg i cl at sty it kids)
  let ?e = "Element tg i cl at sty it kids"
  let ?e' = "Element tg i cl at sty it (insertBefore p new kids)"
  let ?k = "nth_of_type prev ?e" and ?k' = "nth_of_type prev' ?e'"
  note nf = "5.prems"(1) and sh = "5.prems"(2)
  have hd: "head_of ?e = head_of ?e'" by simp
  from "5.prems"(3) have found:
    "matches sel anc ?e ?k \<or> query_nodes sel ((?e, ?k) # anc) [] kids \<noteq> None"
    by (simp only: query_node_Element_found)
  have "matches sel anc' ?e' ?k' \<or> query_nodes sel ((?e', ?k') # anc') [] (insertBefore p new kids) \<noteq> None"
    using found
  proof
    assume "matches sel anc ?e ?k"
    then show ?thesis using matches_head [OF nf sh hd, of ?k ?k'] by simp
  next
    assume a: "query_nodes sel ((?e, ?k) # anc) [] kids \<noteq> None"
    have sh': "same_heads ((?e, ?k) # anc) ((?e', ?k') # anc')"
      using sh by (simp add: same_heads_def)
    show ?thesis using "5.IH" [OF nf sh' a] by simp
  qed
  then have "query_node sel anc' prev' ?e' \<noteq> None"
    by (simp only: query_node_Element_found)
  then show ?case by simp
qed

lemma querySelector_insertBefore:
  "nth_free sel \<Longrightarrow> querySelector sel d \<noteq> None \<Longrightarrow>
     querySelector sel (insertBefore p new d) \<noteq> None"
  using query_found_insertBefore(1) [of sel "[]" "[]" "[]" d "[]" p new]
  by (simp add: querySelector_def querySelectorPath_def same_heads_def)

lemma doc_addSummarizeButton: "doc (addSummarizeButton st) = reconciled (doc st)"
  by (simp add: reconciled_def addSummarizeButton_def initial_state_def setTimeout_def
        split: option.splits prod.splits)

lemma reconciled_cases:
  "reconciled d = d \<or> (\<exists>p. reconciled d = insertBefore p summarizeBtnWrapper d)"
  by (auto simp: reconciled_def addSummarizeButton_def initial_state_def setTimeout_def
        split: option.splits prod.splits)

lemma gate_open_reconciled:
  "gate_open d recs \<Longrightarrow> gate_open (reconciled d) recs"
proof -
  assume g: "gate_open d recs"
  have nf: "nth_free MAIN_TOOLBAR_SELECTOR" "nth_free EMAIL_BODY_SELECTOR"
    by (simp_all add: nth_free_def MAIN_TOOLBAR_SELECTOR_def EMAIL_BODY_SELECTOR_def)
  from reconciled_cases [of d] show ?thesis
  proof
    assume "reconciled d = d"
    then show ?thesis using g by simp
  next
    assume "\<exists>p. reconciled d = insertBefore p summarizeBtnWrapper d"
    then obtain p where p: "reconciled d = insertBefore p summarizeBtnWrapper d" ..
    show ?thesis
      using g querySelector_insertBefore [OF nf(1), of d p summarizeBtnWrapper]
        querySelector_insertBefore [OF nf(2), of d p summarizeBtnWrapper]
      by (simp add: gate_open_def p)
  qed
qed

subsection \<open>From one call of the wrapper to the call of the wrapped function\<close>

lemma earliest_None: "earliest tms = None \<longleftrightarrow> tms = []"
  by (cases tms) (auto split: option.splits)

lemma count_id_insertBefore_changed:
  "insertBefore p new ns = ns
   \<or> count_id_list x (insertBefore p new ns) = count_id_list x ns + count_id x new"
  "insertBefore_in p new n = n
   \<or> count_id x (insertBefore_in p new n) = count_id x n + count_id x new"
  by (induction p new ns and p new n rule: insertBefore_insertBefore_in.induct)
     (auto split: nat.splits)

lemma reconciled_button:
  "reconciled d \<noteq> d \<Longrightarrow> getElementById BUTTON_ID (reconciled d) \<noteq> None"
proof -
  assume ne: "reconciled d \<noteq> d"
  with reconciled_cases [of d] obtain p where p: "reconciled d = insertBefore p summarizeBtnWrapper d"
    by auto
  have "count_id_list BUTTON_ID (reconciled d) = count_id_list BUTTON_ID d + 1"
    using count_id_insertBefore_changed(1) [of p summarizeBtnWrapper d BUTTON_ID] ne p
    by (simp add: count_id_wrapper)
  then show ?thesis
    by (simp add: getElementById_def find_id_count)
qed

lemma reconciled_stable:
  "getElementById BUTTON_ID d \<noteq> None \<Longrightarrow> reconciled d = d"
  by (simp add: reconciled_def addSummarizeButton_def initial_state_def)

lemma reconciled_idem: "reconciled (reconciled d) = reconciled d"
  using reconciled_button [of d] reconciled_stable [of "reconciled d"] by (cases "reconciled d = d") simp_all

lemma addSummarizeButton_laters [simp]: "laters (addSummarizeButton st) = laters st"
  by (simp add: laters_def addSummarizeButton_def setTimeout_def is_later_def
        split: option.splits prod.splits)

lemma addSummarizeButton_timeout [simp]: "timeout (addSummarizeButton st) = timeout st"
  by (simp add: addSummarizeButton_def setTimeout_def split: option.splits prod.splits)

lemma addSummarizeButton_later_runs [simp]: "later_runs (addSummarizeButton st) = later_runs st"
  by (simp add: addSummarizeButton_def setTimeout_def split: option.splits prod.splits)

text \<open>When a call would not change the document, nothing is reported to the observer.\<close>

lemma observed_stable:
  "reconciled (doc st) = doc st \<Longrightarrow> addSummarizeButton_observed st = addSummarizeButton st"
  by (simp add: addSummarizeButton_observed_def own_records_def doc_addSummarizeButton)

text \<open>
  With no timer of the wrapper pending and a document that a call would not change,
  the timers that fire are retries that change nothing, and the wrapper stays idle.
\<close>

lemma run_due_idle:
  "laters st = [] \<Longrightarrow> reconciled (doc st) = doc st \<Longrightarrow>
     later_runs (run_due t st) = later_runs st"
proof (induction t st rule: run_due.induct)
  case (1 t st)
  show ?case
  proof (cases "earliest (timers st)")
    case None
    then show ?thesis by (simp add: run_due.simps [of t st])
  next
    case (Some tm)
    show ?thesis
    proof (cases "due tm \<le> t")
      case False
      then show ?thesis using Some by (simp add: run_due.simps [of t st])
    next
      case True
      have mem: "tm \<in> set (timers st)" using Some by (rule earliest_mem)
      have "\<not> is_later tm"
        using mem "1.prems"(1) by (auto simp: laters_def filter_empty_conv)
      then have retry: "cb tm = Retry"
        by (cases "cb tm") (simp_all add: is_later_def)
      let ?st1 = "st\<lparr>timers := remove1 tm (timers st), now := max (now st) (due tm)\<rparr>"
      have f: "fire tm st = addSummarizeButton ?st1"
        using retry "1.prems"(2) by (simp add: fire_def observed_stable)
      have l1: "laters ?st1 = []"
        using "1.prems"(1) by (simp add: laters_def filter_remove1)
      have pre1: "laters (fire tm st) = []"
        using l1 by (simp add: f)
      have pre2: "reconciled (doc (fire tm st)) = doc (fire tm st)"
        using "1.prems"(2) by (simp add: f doc_addSummarizeButton reconciled_idem)
      have "later_runs (run_due t (fire tm st)) = later_runs (fire tm st)"
        using "1.IH" [OF Some True pre1 pre2] .
      then show ?thesis
        using Some True by (simp add: run_due.simps [of t st] f)
    qed
  qed
qed

lemma run_due_none: "timers st = [] \<Longrightarrow> run_due t st = st"
  by (simp add: run_due.simps [of t st])

lemma armed_timer:
  assumes "armed st u d"
  obtains i where "timers st = [\<lparr>timer_id = i, due = u + 500, cb = Later\<rparr>]"
    and "timeout st = Some i" and "now st = u" and "doc st = d"
    and "gate_open d [''childList'']"
  using assms by (auto simp: armed_def split: option.splits)

lemma run_due_armed_early: "armed st u d \<Longrightarrow> t < u + 500 \<Longrightarrow> run_due t st = st"
  by (erule armed_timer) (simp add: run_due.simps [of t st])

lemma gate_open_childList: "gate_open d recs \<Longrightarrow> gate_open d [''childList'']"
  by (simp add: gate_open_def)

text \<open>A call of the wrapper with at most its own timer pending arms it afresh.\<close>

lemma executedFunction_arms:
  assumes "timers st = [] \<or> (\<exists>i due_i. timers st = [\<lparr>timer_id = i, due = due_i, cb = Later\<rparr>]
                                      \<and> timeout st = Some i)"
    and "gate_open (doc st) [''childList'']"
  shows "armed (executedFunction st) (now st) (doc st)"
    and "later_runs (executedFunction st) = later_runs st"
proof -
  have c: "timers (clearTimeout (timeout st) st) = []"
    using assms(1) by (auto simp: clearTimeout_def split: option.splits)
  have e: "executedFunction st
             = (clearTimeout (timeout st) st)
                 \<lparr>timers := [\<lparr>timer_id = next_timer_id st, due = now st + 500, cb = Later\<rparr>],
                  next_timer_id := Suc (next_timer_id st),
                  timeout := Some (next_timer_id st)\<rparr>"
    using c by (simp add: executedFunction_def setTimeout_def Let_def clearTimeout_def
                  split: option.splits)
  show "armed (executedFunction st) (now st) (doc st)"
    using assms(2) by (simp add: e armed_def clearTimeout_def split: option.splits)
  show "later_runs (executedFunction st) = later_runs st"
    by (simp add: e clearTimeout_def split: option.splits)
qed

lemma observe_arms:
  assumes pend: "timers st = [] \<or> (\<exists>u0 d0. armed st u0 d0 \<and> v < u0 + 500)"
    and nw: "now st \<le> v"
    and gate: "gate_open d recs"
  shows "armed (observe (v, d, recs) st) v d"
    and "later_runs (observe (v, d, recs) st) = later_runs st"
proof -
  have rd: "run_due v st = st"
    using pend by (auto simp: run_due_none run_due_armed_early)
  let ?s2 = "st\<lparr>now := v, doc := d\<rparr>"
  have adv: "(advance v st)\<lparr>doc := d\<rparr> = ?s2"
    using nw by (simp add: advance_def rd max_def)
  have obs: "observe (v, d, recs) st = executedFunction ?s2"
    using gate by (simp add: observe_def adv callback_gate)
  have tm: "timers ?s2 = [] \<or> (\<exists>i due_i. timers ?s2 = [\<lparr>timer_id = i, due = due_i, cb = Later\<rparr>]
                                      \<and> timeout ?s2 = Some i)"
    using pend by (auto elim!: armed_timer)
  have g: "gate_open (doc ?s2) [''childList'']"
    using gate by (simp add: gate_open_def)
  show "armed (observe (v, d, recs) st) v d"
    using executedFunction_arms(1) [OF tm g] by (simp add: obs)
  show "later_runs (observe (v, d, recs) st) = later_runs st"
    using executedFunction_arms(2) [OF tm g] by (simp add: obs)
qed

lemma burst_keeps_armed:
  "armed st u d \<Longrightarrow> burst u sigs \<Longrightarrow>
     armed (observe_all sigs st) (last_time u sigs) (last_doc d sigs)
     \<and> later_runs (observe_all sigs st) = later_runs st"
proof (induction sigs arbitrary: st u d)
  case Nil
  then show ?case by simp
next
  case (Cons sig sigs)
  obtain v d' recs where sig: "sig = (v, d', recs)"
    by (cases sig) auto
  from Cons.prems(2) have uv: "u \<le> v" "v < u + 500" and gate: "gate_open d' recs"
    and rest: "burst v sigs"
    by (simp_all add: sig)
  have nw: "now st \<le> v"
    using Cons.prems(1) uv by (auto elim: armed_timer)
  have pend: "timers st = [] \<or> (\<exists>u0 d0. armed st u0 d0 \<and> v < u0 + 500)"
    using Cons.prems(1) uv by blast
  note step = observe_arms [OF pend nw gate]
  have "armed (observe_all sigs (observe sig st)) (last_time v sigs) (last_doc d' sigs)
        \<and> later_runs (observe_all sigs (observe sig st)) = later_runs (observe sig st)"
    using Cons.IH [OF _ rest] step(1) by (simp add: sig)
  then show ?case
    using step(2) by (simp add: sig)
qed

text \<open>
  The wrapper's timer fires in an armed state: \<open>later\<close> calls the wrapped function
  once.  If the call leaves the document as it is, the wrapper is idle afterwards; if
  it inserts the button, the observer reports the insertion and the wrapper is armed
  again.
\<close>

lemma fire_armed:
  assumes a: "armed st u d" and L: "timers st = [L]"
  shows "later_runs (fire L st) = later_runs st @ [u + 500]"
    and "reconciled d = d \<Longrightarrow> laters (fire L st) = [] \<and> doc (fire L st) = d"
    and "reconciled d \<noteq> d \<Longrightarrow> armed (fire L st) (u + 500) (reconciled d)"
proof -
  from a obtain i where tm: "timers st = [\<lparr>timer_id = i, due = u + 500, cb = Later\<rparr>]"
    and to: "timeout st = Some i" and nw: "now st = u" and dc: "doc st = d"
    and gate: "gate_open d [''childList'']"
    by (rule armed_timer)
  have Leq: "L = \<lparr>timer_id = i, due = u + 500, cb = Later\<rparr>"
    using tm L by simp
  let ?s3 = "st\<lparr>now := u + 500, timers := [], later_runs := later_runs st @ [u + 500]\<rparr>"
  have f: "fire L st = addSummarizeButton_observed ?s3"
    using L to nw by (simp add: fire_def later_def Let_def clearTimeout_def Leq max_def)
  let ?a = "addSummarizeButton ?s3"
  have da: "doc ?a = reconciled d"
    using dc by (simp add: doc_addSummarizeButton)
  have lr: "later_runs ?a = later_runs st @ [u + 500]"
    by simp
  have cbd: "later_runs (callback recs ?a) = later_runs ?a" for recs
    by (simp add: callback_gate executedFunction_def setTimeout_def Let_def clearTimeout_def
          split: option.splits)
  show "later_runs (fire L st) = later_runs st @ [u + 500]"
    using cbd lr by (simp add: f addSummarizeButton_observed_def Let_def)
  show "laters (fire L st) = [] \<and> doc (fire L st) = d" if "reconciled d = d"
  proof -
    have "fire L st = ?a"
      using that dc by (simp add: f observed_stable)
    moreover have "laters ?a = laters ?s3"
      by simp
    moreover have "laters ?s3 = []"
      by (simp add: laters_def)
    ultimately show ?thesis
      using da that by simp
  qed
  show "armed (fire L st) (u + 500) (reconciled d)" if "reconciled d \<noteq> d"
  proof -
    have changed: "doc ?a \<noteq> doc ?s3"
      using that da dc by simp
    have ta: "timers ?a = []"
      using addSummarizeButton_inserts [OF changed] by simp
    have ga: "gate_open (doc ?a) [''childList'']"
      using gate_open_reconciled [OF gate] da by simp
    have "fire L st = executedFunction ?a"
      using changed ga by (simp add: f addSummarizeButton_observed_def own_records_def
                             callback_gate Let_def)
    moreover have "armed (executedFunction ?a) (now ?a) (doc ?a)"
      using ta ga by (intro executedFunction_arms(1)) simp_all
    ultimately show ?thesis
      using da by simp
  qed
qed

lemma run_due_armed_due:
  assumes "armed st u d" and "timers st = [L]" and "u + 500 \<le> t"
  shows "run_due t st = run_due t (fire L st)"
proof -
  from assms(1) obtain i where "timers st = [\<lparr>timer_id = i, due = u + 500, cb = Later\<rparr>]"
    by (rule armed_timer)
  then have "due L = u + 500"
    using assms(2) by auto
  then show ?thesis
    using assms(2,3) by (simp add: run_due.simps [of t st])
qed

lemma later_runs_advance: "later_runs (advance T s) = later_runs (run_due T s)"
  by (simp add: advance_def Let_def)

lemma armed_single: "armed st u d \<Longrightarrow> \<exists>L. timers st = [L]"
  by (erule armed_timer) simp

text \<open>What the wrapper has called by time \<open>T\<close>, from an armed state.\<close>

lemma armed_outcome:
  assumes a: "armed st u d"
  shows "T < u + 500 \<Longrightarrow> later_runs (run_due T st) = later_runs st"
    and "u + 500 \<le> T \<Longrightarrow> T < u + 1000 \<Longrightarrow> later_runs (run_due T st) = later_runs st @ [u + 500]"
    and "u + 1000 \<le> T \<Longrightarrow>
           later_runs (run_due T st)
             = later_runs st @ (if reconciled d = d then [u + 500] else [u + 500, u + 1000])"
proof -
  from armed_single [OF a] obtain L where L: "timers st = [L]" ..
  note fa = fire_armed [OF a L]
  show "later_runs (run_due T st) = later_runs st" if "T < u + 500"
    using run_due_armed_early [OF a that] by simp
  have step: "run_due T st = run_due T (fire L st)" if "u + 500 \<le> T"
    using a L that by (rule run_due_armed_due)
  have stable: "later_runs (run_due T st) = later_runs st @ [u + 500]"
    if "u + 500 \<le> T" and "reconciled d = d"
  proof -
    have "later_runs (run_due T (fire L st)) = later_runs (fire L st)"
      using fa(2) [OF that(2)] that(2) by (intro run_due_idle) simp_all
    then show ?thesis
      using step [OF that(1)] fa(1) by simp
  qed
  show "later_runs (run_due T st) = later_runs st @ [u + 500]"
    if le: "u + 500 \<le> T" and lt: "T < u + 1000"
  proof (cases "reconciled d = d")
    case True
    then show ?thesis using stable [OF le] by simp
  next
    case False
    have "run_due T (fire L st) = fire L st"
      using fa(3) [OF False] lt by (intro run_due_armed_early [where u = "u + 500"]) simp_all
    then show ?thesis
      using step [OF le] fa(1) by simp
  qed
  show "later_runs (run_due T st)
          = later_runs st @ (if reconciled d = d then [u + 500] else [u + 500, u + 1000])"
    if ge: "u + 1000 \<le> T"
  proof (cases "reconciled d = d")
    case True
    then show ?thesis using stable ge by simp
  next
    case False
    let ?r = "fire L st"
    have ar: "armed ?r (u + 500) (reconciled d)"
      using fa(3) [OF False] .
    from armed_single [OF ar] obtain L' where L': "timers ?r = [L']" ..
    note fr = fire_armed [OF ar L']
    have ge': "u + 500 + 500 \<le> T"
      using ge by simp
    have st2: "run_due T ?r = run_due T (fire L' ?r)"
      using ar L' ge' by (rule run_due_armed_due)
    have idle: "laters (fire L' ?r) = [] \<and> doc (fire L' ?r) = reconciled d"
      using fr(2) by (simp add: reconciled_idem)
    have "later_runs (run_due T (fire L' ?r)) = later_runs (fire L' ?r)"
      using idle by (intro run_due_idle) (simp_all add: reconciled_idem)
    then have "later_runs (run_due T ?r) = later_runs st @ [u + 500, u + 1000]"
      using st2 fr(1) fa(1) by simp
    moreover have "run_due T st = run_due T ?r"
      using step ge by simp
    ultimately show ?thesis
      using False by simp
  qed
qed

text \<open>
  Claim C4, amended.  Take a burst of at least one signal, each of which gets through
  to the wrapper and comes less than 500 ms after the one before, starting when no
  timer is pending.  Then the wrapped function is not called during the burst, nor
  before 500 ms have passed since the last signal; it is called exactly once for the
  burst, 500 ms after the last signal.  If that call leaves the document as it is,
  no further call follows.  If it inserts the button, the observer reports the
  insertion, which gets through to the wrapper, and the wrapped function is called
  once more, 500 ms after the first call, and never again.
\<close>

theorem C4_debounce_burst:
  "timers st = [] \<Longrightarrow> now st \<le> t1 \<Longrightarrow> gate_open d1 recs1 \<Longrightarrow> burst t1 sigs \<Longrightarrow>
     later_runs (observe_all ((t1, d1, recs1) # sigs) st) = later_runs st
   \<and> (T < last_time t1 sigs + 500 \<longrightarrow>
        later_runs (advance T (observe_all ((t1, d1, recs1) # sigs) st)) = later_runs st)
   \<and> (last_time t1 sigs + 500 \<le> T \<and> T < last_time t1 sigs + 1000 \<longrightarrow>
        later_runs (advance T (observe_all ((t1, d1, recs1) # sigs) st))
          = later_runs st @ [last_time t1 sigs + 500])
   \<and> (last_time t1 sigs + 1000 \<le> T \<longrightarrow>
        later_runs (advance T (observe_all ((t1, d1, recs1) # sigs) st))
          = later_runs st @
              (if reconciled (last_doc d1 sigs) = last_doc d1 sigs
               then [last_time t1 sigs + 500]
               else [last_time t1 sigs + 500, last_time t1 sigs + 1000]))"
proof -
  assume idle: "timers st = []" and nw: "now st \<le> t1"
    and gate: "gate_open d1 recs1" and b: "burst t1 sigs"
  let ?s = "observe_all ((t1, d1, recs1) # sigs) st"
  let ?tN = "last_time t1 sigs" and ?dN = "last_doc d1 sigs"
  have pend: "timers st = [] \<or> (\<exists>u0 d0. armed st u0 d0 \<and> t1 < u0 + 500)"
    using idle by simp
  note first = observe_arms [OF pend nw gate]
  have rest: "armed ?s ?tN ?dN \<and> later_runs ?s = later_runs (observe (t1, d1, recs1) st)"
    using burst_keeps_armed [OF first(1) b] by simp
  then have a: "armed ?s ?tN ?dN" and during: "later_runs ?s = later_runs st"
    using first(2) by simp_all
  note out = armed_outcome [OF a, of T]
  show ?thesis
    using during out by (simp add: later_runs_advance)
qed

lemma inbox_no_email_body: "querySelector EMAIL_BODY_SELECTOR inbox_doc = None"
  by code_simp

text \<open>
  Claim C4 as stated fails.  A mutation signal reaches the wrapper only when the main
  toolbar and the email body are both in the document: on the inbox list a signal
  sets no timer, and the wrapped function is never called, however long one waits.
  And where the signals do get through and the button is not yet there, the call made
  for the burst inserts it, which the observer reports as a mutation of its own: after
  a burst of three signals the wrapped function is called twice.
\<close>

theorem C4_closed_gate_counterexample:
  "later_runs (advance 60000 (observe_all [(10, inbox_doc, [''childList''])]
                 (initial_state inbox_doc 0))) = []
   \<and> timers (observe_all [(10, inbox_doc, [''childList''])] (initial_state inbox_doc 0)) = []
   \<and> later_runs (advance 5000
         (observe_all [(1010, gmail_doc, [''childList'']),
                       (1400, gmail_doc, [''attributes'', ''childList'']),
                       (1899, gmail_doc, [''childList''])]
            (advance 1000 (script_start [] 0)))) = [2399, 2899]"
proof -
  have a: "later_runs (advance 60000 (observe_all [(10, inbox_doc, [''childList''])]
                 (initial_state inbox_doc 0))) = []
   \<and> timers (observe_all [(10, inbox_doc, [''childList''])] (initial_state inbox_doc 0)) = []"
    by (simp add: observe_def advance_def run_due.simps initial_state_def inbox_no_email_body
        Let_def)
  have b: "later_runs (advance 5000
         (observe_all [(1010, gmail_doc, [''childList'']),
                       (1400, gmail_doc, [''attributes'', ''childList'']),
                       (1899, gmail_doc, [''childList''])]
            (advance 1000 (script_start [] 0)))) = [2399, 2899]"
    by code_simp
  show ?thesis using a b by simp
qed

text \<open>
  The script has started on an empty document and its retry has given up.  Three
  signals at 1010, 1400 and 1899 ms in the example conversation view: one call at
  2399 ms, which inserts the button, and the call for that insertion at 2899 ms.
\<close>

theorem C4_debounce_burst_witness:
  "later_runs (advance 2500
      (observe_all [(1010, gmail_doc, [''childList'']),
                    (1400, gmail_doc, [''attributes'', ''childList'']),
                    (1899, gmail_doc, [''childList''])]
         (advance 1000 (script_start [] 0)))) = [2399]
   \<and> later_runs (advance 5000
      (observe_all [(1010, gmail_doc, [''childList'']),
                    (1400, gmail_doc, [''attributes'', ''childList'']),
                    (1899, gmail_doc, [''childList''])]
         (advance 1000 (script_start [] 0)))) = [2399, 2899]"
proof -
  let ?st = "advance 1000 (script_start [] 0)"
  have a: "timers ?st = []"
    by code_simp
  have b: "now ?st \<le> 1010"
    by code_simp
  have c: "gate_open gmail_doc [''childList'']"
    by code_simp
  have d: "burst 1010 [(1400, gmail_doc, [''attributes'', ''childList'']),
                       (1899, gmail_doc, [''childList''])]"
    by code_simp
  have e: "later_runs ?st = []"
    by code_simp
  have f: "reconciled gmail_doc \<noteq> gmail_doc"
    by code_simp
  show ?thesis
    using C4_debounce_burst [OF a b c d, of 2500] C4_debounce_burst [OF a b c d, of 5000] e f
    by simp
qed

section \<open>Properties of the floating widget\<close>

text \<open>
  Claim C7.  \<open>getGmailInfo\<close> never throws: whatever the location hash and the
  document, it returns a snapshot.  When none of its four selectors matches an element,
  sender, date, subject and body are all the empty string.
\<close>

theorem C7_extraction_never_fails:
  "(\<exists>snap. getGmailInfo h d = Inr snap)
   \<and> (querySelector sel_gD d = None \<and> querySelector sel_span_g3 d = None
        \<and> querySelector sel_h2_hP d = None \<and> querySelector sel_a3s d = None \<longrightarrow>
       getGmailInfo h d
         = Inr \<lparr>page = (if CHR ''/'' \<in> set h then ''singleEmail'' else ''list''),
                sender = [], date = [], subject = [], body = []\<rparr>)"
  by (auto simp: getGmailInfo_def member_def and_then_def Let_def split: option.splits)

text \<open>A conversation URL on a document in which nothing has been rendered yet.\<close>

theorem C7_extraction_never_fails_witness:
  "getGmailInfo ''#inbox/FMfcgz'' []
     = Inr \<lparr>page = ''singleEmail'', sender = [], date = [], subject = [], body = []\<rparr>"
  using C7_extraction_never_fails [of "''#inbox/FMfcgz''" "[]"]
  by (auto simp: getGmailInfo_def querySelector_def querySelectorPath_def and_then_def)

text \<open>
  Claim C8 as stated fails: \<open>infoChanged\<close> compares subject, date and body only.
  A fresh snapshot that differs from the last pushed one in the sender alone is not
  pushed.
\<close>

theorem C8_sender_change_counterexample:
  "getGmailInfo ''#inbox/123'' (mail_doc ''Bob'')
     = Inr \<lparr>page = ''singleEmail'', sender = ''Bob'', date = ''Mon, 3 Nov'',
            subject = ''Lunch'', body = ''See you at noon''\<rparr>
   \<and> posted (auto_refresh
        \<lparr>fdoc = mail_doc ''Bob'', location_hash = ''#inbox/123'', gmailFloatingInjected = True,
         lastInfo = Some \<lparr>page = ''singleEmail'', sender = ''Alice'', date = ''Mon, 3 Nov'',
                          subject = ''Lunch'', body = ''See you at noon''\<rparr>,
         posted = [\<lparr>page = ''singleEmail'', sender = ''Alice'', date = ''Mon, 3 Nov'',
                          subject = ''Lunch'', body = ''See you at noon''\<rparr>]\<rparr>)
     = [\<lparr>page = ''singleEmail'', sender = ''Alice'', date = ''Mon, 3 Nov'',
                          subject = ''Lunch'', body = ''See you at noon''\<rparr>]"
  by code_simp

text \<open>
  Claim C8, amended.  On an auto-refresh check with the iframe in the document and
  not hidden, the fresh snapshot is pushed (and becomes \<open>lastInfo\<close>) if and only
  if \<open>lastInfo\<close> is still \<open>null\<close> or the snapshot differs from \<open>lastInfo\<close>
  in subject, date or body; otherwise nothing changes.  \<open>lastInfo\<close> is the
  snapshot last pushed by such a check.
\<close>

theorem C8_auto_refresh_push:
  "getElementById ''gmail-floating-iframe'' (fdoc st) = Some iframe \<Longrightarrow>
   style_display iframe \<noteq> ''none'' \<Longrightarrow>
   getGmailInfo (location_hash st) (fdoc st) = Inr info \<Longrightarrow>
     auto_refresh st =
       (if lastInfo st = None
           \<or> subject info \<noteq> subject (the (lastInfo st))
           \<or> date info \<noteq> date (the (lastInfo st))
           \<or> body info \<noteq> body (the (lastInfo st))
        then st\<lparr>posted := posted st @ [info], lastInfo := Some info\<rparr>
        else st)"
  by (auto simp: auto_refresh_def infoChanged_def split: option.splits)

text \<open>A new subject and body from the same sender: pushed.\<close>

theorem C8_auto_refresh_push_witness:
  "posted (auto_refresh
        \<lparr>fdoc = mail_doc ''Bob'', location_hash = ''#inbox/123'', gmailFloatingInjected = True,
         lastInfo = Some \<lparr>page = ''singleEmail'', sender = ''Bob'', date = ''Mon, 3 Nov'',
                          subject = ''Dinner'', body = ''See you at eight''\<rparr>,
         posted = []\<rparr>)
     = [\<lparr>page = ''singleEmail'', sender = ''Bob'', date = ''Mon, 3 Nov'',
                          subject = ''Lunch'', body = ''See you at noon''\<rparr>]"
proof -
  let ?st = "\<lparr>fdoc = mail_doc ''Bob'', location_hash = ''#inbox/123'', gmailFloatingInjected = True,
         lastInfo = Some \<lparr>page = ''singleEmail'', sender = ''Bob'', date = ''Mon, 3 Nov'',
                          subject = ''Dinner'', body = ''See you at eight''\<rparr>,
         posted = []\<rparr>"
  let ?iframe = "Element ''iframe'' ''gmail-floating-iframe'' [] [] [(''display'', ''block'')] [] []"
  have a: "getElementById ''gmail-floating-iframe'' (fdoc ?st) = Some ?iframe"
    by (simp add: getElementById_def mail_doc_def)
  have b: "style_display ?iframe \<noteq> ''none''"
    by (simp add: style_display_def)
  have c: "getGmailInfo (location_hash ?st) (fdoc ?st)
            = Inr \<lparr>page = ''singleEmail'', sender = ''Bob'', date = ''Mon, 3 Nov'',
                          subject = ''Lunch'', body = ''See you at noon''\<rparr>"
    by code_simp
  show ?thesis
    using C8_auto_refresh_push [OF a b c] by simp
qed


end
